theory Spec2Isabelle
  imports Complex_Main "HOL-Library.Char_ord" "HOL-Library.List_Lexorder" "HOL-Library.Multiset"
begin

section \<open>MonieShop analyser: the embedding of main.py\<close>

text \<open>
  The program reads transaction lines, builds a \<open>Sale\<close> from each one and folds it into
  five dictionaries kept by \<open>MonieshopAnalyser\<close>; \<open>print_metrics\<close> derives the reported
  maxima from them.

  Conventions of the embedding:
  \<^item> a Python exception is a value of \<open>error\<close>, returned as \<open>Inl\<close>;
  \<^item> a Python \<open>dict\<close> is an association list with distinct keys in insertion order
    (the order \<open>items()\<close> iterates in, which decides ties in \<open>max\<close>);
  \<^item> Python's unbounded \<open>int\<close> is \<open>int\<close>;
  \<^item> a Python \<open>float\<close> is the rational number it denotes (every finite float is one);
    the infinities and NaN have no counterpart;
  \<^item> what the program takes from the standard library is a parameter, collected in a
    \<open>pylib\<close> record: the conversions \<open>datetime.fromisoformat\<close>, \<open>int\<close> and \<open>float\<close> on
    strings (\<open>None\<close> standing for the \<open>ValueError\<close> they raise) and the two operations
    that round to a float, the addition of floats and the true division of integers.
    \<open>binary64_lib\<close> below is the instance that rounds as IEEE 754 binary64 does.
\<close>

subsection \<open>Errors, time stamps, the library parameters\<close>

datatype error = IndexError | ValueError | KeyError | ZeroDivisionError | OverflowError

text \<open>The fields of \<open>datetime.datetime\<close> that the program reads.\<close>

record datetime =
  year :: nat
  month :: nat
  day :: nat
  hour :: nat
  minute :: nat
  second :: nat

type_synonym date = "nat \<times> nat \<times> nat"

text \<open>
  \<open>float_add x y\<close> is the float \<open>x + y\<close>; \<open>true_div a b\<close> is the float \<open>a / b\<close> of two
  integers, \<open>b\<close> not zero, \<open>None\<close> when the quotient is beyond the range of floats
  (\<open>OverflowError\<close>).
\<close>

record pylib =
  fromisoformat :: "string \<Rightarrow> datetime option"
  py_int :: "string \<Rightarrow> int option"
  py_float :: "string \<Rightarrow> rat option"
  float_add :: "rat \<Rightarrow> rat \<Rightarrow> rat"
  true_div :: "int \<Rightarrow> int \<Rightarrow> rat option"

text \<open>
  Sequencing: the statement after a call runs only when the call did not raise.
\<close>

definition on_ok :: "error + 'a \<Rightarrow> ('a \<Rightarrow> error + 'b) \<Rightarrow> error + 'b" where
  "on_ok r f = (case r of Inl e \<Rightarrow> Inl e | Inr x \<Rightarrow> f x)"

definition or_raise :: "error \<Rightarrow> 'a option \<Rightarrow> error + 'a" where
  "or_raise e r = (case r of None \<Rightarrow> Inl e | Some x \<Rightarrow> Inr x)"

text \<open>\<open>timestamp.date()\<close>.\<close>

definition date_of :: "datetime \<Rightarrow> date" where
  "date_of t = (year t, month t, day t)"

text \<open>
  \<open>timestamp.strftime('%Y-%m')\<close>: the year, a dash, the month in two decimal digits. The
  year is printed as the C library of Linux prints \<open>%Y\<close>, without leading zeros: year 999
  gives \<open>999-12\<close>. (The years of a \<open>datetime\<close> are 1 to 9999.)
\<close>

definition digit_char :: "nat \<Rightarrow> char" where
  "digit_char n = char_of (48 + n mod 10)"

definition year_digits :: "nat \<Rightarrow> string" where
  "year_digits y =
     (if y < 10 then [digit_char y]
      else if y < 100 then [digit_char (y div 10), digit_char y]
      else if y < 1000 then [digit_char (y div 100), digit_char (y div 10), digit_char y]
      else [digit_char (y div 1000), digit_char (y div 100), digit_char (y div 10),
            digit_char y])"

definition year_month_key :: "nat \<Rightarrow> nat \<Rightarrow> string" where
  "year_month_key y m = year_digits y @ [CHR ''-'', digit_char (m div 10), digit_char m]"

definition strftime_Ym :: "datetime \<Rightarrow> string" where
  "strftime_Ym t = year_month_key (year t) (month t)"

subsection \<open>String methods\<close>

text \<open>\<open>s.split(sep)\<close> for a one-character separator: never the empty list.\<close>

fun str_split :: "char \<Rightarrow> string \<Rightarrow> string list" where
  "str_split sep [] = [[]]"
| "str_split sep (c # cs) =
     (if c = sep then [] # str_split sep cs
      else (case str_split sep cs of
              [] \<Rightarrow> [[c]]
            | w # ws \<Rightarrow> (c # w) # ws))"

text \<open>
  \<open>s.strip()\<close>: the characters for which \<open>str.isspace\<close> holds are removed at both ends.
  A \<open>char\<close> is a code point below 256; these are the twelve of them that are white space.
\<close>

definition isspace :: "char \<Rightarrow> bool" where
  "isspace c = ((of_char c :: nat) \<in> {9, 10, 11, 12, 13, 28, 29, 30, 31, 32, 133, 160})"

definition strip :: "string \<Rightarrow> string" where
  "strip s = rev (dropWhile isspace (rev (dropWhile isspace s)))"

text \<open>\<open>xs[i]\<close> for a non-negative index.\<close>

definition getitem :: "'a list \<Rightarrow> nat \<Rightarrow> error + 'a" where
  "getitem xs i = (if i < length xs then Inr (xs ! i) else Inl IndexError)"

subsection \<open>class Sale\<close>

text \<open>One \<open>{'id': product_id, 'quantity': quantity}\<close> dictionary; both values are strings.\<close>

record product =
  product_id :: string
  quantity :: string

record sale =
  staff :: string
  timestamp :: datetime
  products :: "product list"
  amount :: string

text \<open>
  The loop of \<open>format_products\<close>: \<open>product_id, quantity = product.split(':')\<close> raises
  \<open>ValueError\<close> unless the split has exactly two parts.
\<close>

fun format_products_loop :: "product list \<Rightarrow> string list \<Rightarrow> error + product list" where
  "format_products_loop formatted_products [] = Inr formatted_products"
| "format_products_loop formatted_products (p # ps) =
     (case str_split CHR '':'' p of
        [pid, q] \<Rightarrow>
          format_products_loop (formatted_products @ [\<lparr>product_id = pid, quantity = q\<rparr>]) ps
      | _ \<Rightarrow> Inl ValueError)"

text \<open>\<open>products[1:-1]\<close> drops the first and the last character, whatever they are.\<close>

definition format_products :: "string \<Rightarrow> error + product list" where
  "format_products ps = format_products_loop [] (str_split CHR ''|'' (butlast (tl ps)))"

definition format_timestamp :: "pylib \<Rightarrow> string \<Rightarrow> error + datetime" where
  "format_timestamp L ts = or_raise ValueError (fromisoformat L ts)"

text \<open>\<open>Sale.__init__\<close>: the four assignments in their order; fields after the fourth are ignored.\<close>

definition Sale_init :: "pylib \<Rightarrow> string list \<Rightarrow> error + sale" where
  "Sale_init L record =
     on_ok (getitem record 0) (\<lambda>r0.
     on_ok (getitem record 1) (\<lambda>r1.
     on_ok (format_timestamp L r1) (\<lambda>ts.
     on_ok (getitem record 2) (\<lambda>r2.
     on_ok (format_products r2) (\<lambda>ps.
     on_ok (getitem record 3) (\<lambda>r3.
     Inr \<lparr>staff = r0, timestamp = ts, products = ps, amount = r3\<rparr>))))))"

text \<open>The parsing step of \<open>get_transactions\<close>: \<open>Sale(line.strip().split(','))\<close>.\<close>

definition parse_line :: "pylib \<Rightarrow> string \<Rightarrow> error + sale" where
  "parse_line L line = Sale_init L (str_split CHR '','' (strip line))"

subsection \<open>Dictionaries\<close>

text \<open>\<open>d.get(k, default)\<close>, \<open>d[k]\<close> and \<open>d[k] = v\<close> (a new key goes to the end).\<close>

definition dict_get :: "('k \<times> 'v) list \<Rightarrow> 'k \<Rightarrow> 'v \<Rightarrow> 'v" where
  "dict_get d k dflt = (case map_of d k of None \<Rightarrow> dflt | Some v \<Rightarrow> v)"

definition dict_lookup :: "('k \<times> 'v) list \<Rightarrow> 'k \<Rightarrow> error + 'v" where
  "dict_lookup d k = or_raise KeyError (map_of d k)"

fun dict_set :: "('k \<times> 'v) list \<Rightarrow> 'k \<Rightarrow> 'v \<Rightarrow> ('k \<times> 'v) list" where
  "dict_set [] k v = [(k, v)]"
| "dict_set ((k', v') # d) k v =
     (if k' = k then (k, v) # d else (k', v') # dict_set d k v)"

subsection \<open>class MonieshopAnalyser\<close>

record analyser =
  transactions :: "sale list"
  daily_volume :: "(date \<times> int) list"
  daily_value :: "(date \<times> rat) list"
  product_volume :: "(string \<times> int) list"
  monthly_staff_sales :: "(string \<times> (string \<times> int) list) list"
  hourly_volumes :: "(nat \<times> int list) list"

text \<open>\<open>__init__\<close> (the folder path is left to the file reader).\<close>

definition init :: analyser where
  "init = \<lparr>transactions = [], daily_volume = [], daily_value = [], product_volume = [],
           monthly_staff_sales = [], hourly_volumes = []\<rparr>"

text \<open>
  \<open>sum(int(product['quantity']) for product in sale.products)\<close>: the generator raises at
  the first quantity that \<open>int\<close> rejects.
\<close>

fun sum_quantities :: "pylib \<Rightarrow> int \<Rightarrow> product list \<Rightarrow> error + int" where
  "sum_quantities L acc [] = Inr acc"
| "sum_quantities L acc (p # ps) =
     (case py_int L (quantity p) of
        None \<Rightarrow> Inl ValueError
      | Some q \<Rightarrow> sum_quantities L (acc + q) ps)"

text \<open>The loop over \<open>sale.products\<close> that updates \<open>product_volume\<close>.\<close>

fun update_product_volume ::
  "pylib \<Rightarrow> (string \<times> int) list \<Rightarrow> product list \<Rightarrow> error + (string \<times> int) list" where
  "update_product_volume L pv [] = Inr pv"
| "update_product_volume L pv (p # ps) =
     (case py_int L (quantity p) of
        None \<Rightarrow> Inl ValueError
      | Some q \<Rightarrow>
          update_product_volume L
            (dict_set pv (product_id p) (dict_get pv (product_id p) 0 + q)) ps)"

text \<open>
  \<open>update_metrics\<close>, statement by statement. Nothing in the program catches an exception:
  it leaves the method and ends the run, so the result is either the error or the analyser
  after all five updates (the dictionaries that were assigned before the exception are
  not looked at again).
\<close>

definition update_metrics :: "pylib \<Rightarrow> analyser \<Rightarrow> sale \<Rightarrow> error + analyser" where
  "update_metrics L self s =
     (let date = date_of (timestamp s);
          mon = strftime_Ym (timestamp s);
          hr = hour (timestamp s)
      in
      on_ok (sum_quantities L 0 (products s)) (\<lambda>sale_volume.
      let dvol = dict_set (daily_volume self) date
                   (dict_get (daily_volume self) date 0 + sale_volume)
      in
      on_ok (or_raise ValueError (py_float L (amount s))) (\<lambda>amt.
      let dval = dict_set (daily_value self) date
                   (float_add L (dict_get (daily_value self) date 0) amt)
      in
      on_ok (update_product_volume L (product_volume self) (products s)) (\<lambda>pvol.
      let mss1 = dict_set (monthly_staff_sales self) mon
                   (dict_get (monthly_staff_sales self) mon [])
      in
      on_ok (dict_lookup mss1 mon) (\<lambda>inner.
      let mss2 = dict_set mss1 mon
                   (dict_set inner (staff s) (dict_get inner (staff s) 0 + sale_volume));
          hv1 = (if map_of (hourly_volumes self) hr = None
                 then dict_set (hourly_volumes self) hr []
                 else hourly_volumes self)
      in
      on_ok (dict_lookup hv1 hr) (\<lambda>vols.
      Inr (self\<lparr>daily_volume := dvol, daily_value := dval, product_volume := pvol,
                monthly_staff_sales := mss2,
                hourly_volumes := dict_set hv1 hr (vols @ [sale_volume])\<rparr>)))))))"

text \<open>Folding a sequence of sales, stopping at the first exception.\<close>

fun update_all :: "pylib \<Rightarrow> analyser \<Rightarrow> sale list \<Rightarrow> error + analyser" where
  "update_all L self [] = Inr self"
| "update_all L self (s # ss) =
     on_ok (update_metrics L self s) (\<lambda>self'. update_all L self' ss)"

text \<open>
  The loop of \<open>get_transactions\<close> over the lines handed over by the file reader: parse,
  update, remember the sale; \<open>self.transactions\<close> is assigned after the loop.
\<close>

fun get_transactions_loop ::
  "pylib \<Rightarrow> analyser \<Rightarrow> sale list \<Rightarrow> string list \<Rightarrow> error + analyser" where
  "get_transactions_loop L self ts [] = Inr (self\<lparr>transactions := ts\<rparr>)"
| "get_transactions_loop L self ts (line # lines) =
     on_ok (parse_line L line) (\<lambda>s.
     on_ok (update_metrics L self s) (\<lambda>self'.
     get_transactions_loop L self' (ts @ [s]) lines))"

definition get_transactions :: "pylib \<Rightarrow> analyser \<Rightarrow> string list \<Rightarrow> error + analyser" where
  "get_transactions L self lines = get_transactions_loop L self [] lines"

subsection \<open>print_metrics\<close>

text \<open>
  \<open>max(items, key=f)\<close>: \<open>ValueError\<close> on an empty sequence, otherwise the first item whose
  key no other item exceeds.
\<close>

fun py_max :: "('a \<Rightarrow> 'b::linorder) \<Rightarrow> 'a list \<Rightarrow> error + 'a" where
  "py_max f [] = Inl ValueError"
| "py_max f (x # xs) = Inr (fold (\<lambda>y m. if f m < f y then y else m) xs x)"

fun monthly_top_staff_loop ::
  "(string \<times> (string \<times> int)) list \<Rightarrow> (string \<times> (string \<times> int) list) list \<Rightarrow>
   error + (string \<times> (string \<times> int)) list" where
  "monthly_top_staff_loop tops [] = Inr tops"
| "monthly_top_staff_loop tops ((mon, staff_items) # rest) =
     on_ok (py_max snd staff_items) (\<lambda>best.
     monthly_top_staff_loop (dict_set tops mon best) rest)"

text \<open>
  \<open>a / b\<close> on integers: \<open>ZeroDivisionError\<close> for the divisor 0, \<open>OverflowError\<close> when the
  quotient is too large for a float, otherwise the float the library rounds it to.
\<close>

definition truediv :: "pylib \<Rightarrow> int \<Rightarrow> int \<Rightarrow> error + rat" where
  "truediv L a b =
     (if b = 0 then Inl ZeroDivisionError else or_raise OverflowError (true_div L a b))"

text \<open>\<open>sum(volumes)/len(volumes)\<close>.\<close>

definition average :: "pylib \<Rightarrow> int list \<Rightarrow> error + rat" where
  "average L volumes = truediv L (sum_list volumes) (int (length volumes))"

fun avg_hourly_volume_loop ::
  "pylib \<Rightarrow> (nat \<times> rat) list \<Rightarrow> (nat \<times> int list) list \<Rightarrow> error + (nat \<times> rat) list" where
  "avg_hourly_volume_loop L avg [] = Inr avg"
| "avg_hourly_volume_loop L avg ((hr, volumes) # rest) =
     on_ok (average L volumes) (\<lambda>a.
     avg_hourly_volume_loop L (dict_set avg hr a) rest)"

text \<open>
  What \<open>print_metrics\<close> computes before it prints (the block ``Calculate results'').
  \<open>month_rows\<close> is the sequence the final loop walks through,
  \<open>sorted(monthly_top_staff.items(), key=lambda x: x[0])\<close>.
\<close>

record metrics =
  highest_volume_day :: "date \<times> int"
  highest_value_day :: "date \<times> rat"
  most_sold_product :: "string \<times> int"
  monthly_top_staff :: "(string \<times> (string \<times> int)) list"
  month_rows :: "(string \<times> (string \<times> int)) list"
  peak_hour :: "nat \<times> rat"

definition compute_metrics :: "pylib \<Rightarrow> analyser \<Rightarrow> error + metrics" where
  "compute_metrics L self =
     on_ok (py_max snd (daily_volume self)) (\<lambda>hvol.
     on_ok (py_max snd (daily_value self)) (\<lambda>hval.
     on_ok (py_max snd (product_volume self)) (\<lambda>prod.
     on_ok (monthly_top_staff_loop [] (monthly_staff_sales self)) (\<lambda>tops.
     on_ok (avg_hourly_volume_loop L [] (hourly_volumes self)) (\<lambda>avg.
     on_ok (py_max snd avg) (\<lambda>peak.
     Inr \<lparr>highest_volume_day = hvol, highest_value_day = hval, most_sold_product = prod,
          monthly_top_staff = tops, month_rows = sort_key fst tops, peak_hour = peak\<rparr>))))))"

text \<open>
  The block ``Print results''. What is modelled of the output are the lines of the loop
  over \<open>month_rows\<close>: each line shows \<open>month_name[int(month[-2:])]\<close>, the staff id and the
  volume. \<open>calendar.month_name\<close> (in the C locale) is indexed as a list is, negative
  indices counting from its end.
\<close>

definition month_name :: "string list" where
  "month_name = [[], ''January'', ''February'', ''March'', ''April'', ''May'', ''June'', ''July'',
                 ''August'', ''September'', ''October'', ''November'', ''December'']"

definition list_index :: "'a list \<Rightarrow> int \<Rightarrow> error + 'a" where
  "list_index xs i =
     (if 0 \<le> i \<and> i < int (length xs) then Inr (xs ! nat i)
      else if - int (length xs) \<le> i \<and> i < 0 then Inr (xs ! nat (int (length xs) + i))
      else Inl IndexError)"

text \<open>\<open>s[-2:]\<close>: the last two characters, the whole string when it is shorter.\<close>

definition last_two :: "string \<Rightarrow> string" where
  "last_two s = drop (length s - 2) s"

definition month_label :: "pylib \<Rightarrow> string \<Rightarrow> error + string" where
  "month_label L mon =
     on_ok (or_raise ValueError (py_int L (last_two mon))) (\<lambda>i. list_index month_name i)"

fun print_month_lines ::
  "pylib \<Rightarrow> (string \<times> string \<times> int) list \<Rightarrow> (string \<times> (string \<times> int)) list \<Rightarrow>
   error + (string \<times> string \<times> int) list" where
  "print_month_lines L out [] = Inr out"
| "print_month_lines L out ((mon, best) # rest) =
     on_ok (month_label L mon) (\<lambda>label.
     print_month_lines L (out @ [(label, fst best, snd best)]) rest)"

text \<open>The report: the computed metrics and the month lines as printed.\<close>

record report = metrics +
  month_lines :: "(string \<times> string \<times> int) list"

definition report_of :: "metrics \<Rightarrow> (string \<times> string \<times> int) list \<Rightarrow> report" where
  "report_of m ls =
     \<lparr>highest_volume_day = highest_volume_day m, highest_value_day = highest_value_day m,
      most_sold_product = most_sold_product m, monthly_top_staff = monthly_top_staff m,
      month_rows = month_rows m, peak_hour = peak_hour m, month_lines = ls\<rparr>"

definition report_metrics :: "pylib \<Rightarrow> analyser \<Rightarrow> error + report" where
  "report_metrics L self =
     on_ok (compute_metrics L self) (\<lambda>m.
     on_ok (print_month_lines L [] (month_rows m)) (\<lambda>ls.
     Inr (report_of m ls)))"

text \<open>
  \<open>print_metrics\<close> as a method in state-passing form: the result together with the
  analyser it leaves behind. The method assigns local variables only; that the objects of
  the analyser are left as they were is shown on a store of objects in the last section.
\<close>

definition print_metrics :: "pylib \<Rightarrow> analyser \<Rightarrow> (error + report) \<times> analyser" where
  "print_metrics L self = (report_metrics L self, self)"

subsection \<open>The library on the forms the data files use\<close>

text \<open>
  For the scenarios below the three conversions are instantiated on the plain forms that
  occur in the transaction files: a date-time \<open>YYYY-MM-DDxHH:MM:SS\<close> (any separator
  \<open>x\<close>), an integer as an optional sign and decimal digits, a float as an optional sign,
  decimal digits and an optional fraction. The library accepts further forms (white
  space, exponents, fractions of a second, UTC offsets); the instances are only evaluated
  on strings of the plain forms and on strings that the library rejects as well.
\<close>

definition digit_val :: "char \<Rightarrow> 'a::semiring_1 option" where
  "digit_val c =
     map_of [(CHR ''0'', 0), (CHR ''1'', 1), (CHR ''2'', 2), (CHR ''3'', 3), (CHR ''4'', 4),
             (CHR ''5'', 5), (CHR ''6'', 6), (CHR ''7'', 7), (CHR ''8'', 8), (CHR ''9'', 9)] c"

fun digits_val :: "'a::semiring_1 \<Rightarrow> string \<Rightarrow> 'a option" where
  "digits_val acc [] = Some acc"
| "digits_val acc (c # cs) =
     (case digit_val c of None \<Rightarrow> None | Some d \<Rightarrow> digits_val (10 * acc + d) cs)"

definition decimal :: "string \<Rightarrow> 'a::semiring_1 option" where
  "decimal s = (if s = [] then None else digits_val 0 s)"

definition plain_int :: "string \<Rightarrow> int option" where
  "plain_int s =
     (if s \<noteq> [] \<and> hd s = CHR ''-'' then map_option uminus (decimal (tl s))
      else if s \<noteq> [] \<and> hd s = CHR ''+'' then decimal (tl s)
      else decimal s)"

definition unsigned_float :: "string \<Rightarrow> rat option" where
  "unsigned_float s =
     (case str_split CHR ''.'' s of
        [i] \<Rightarrow> decimal i
      | [i, f] \<Rightarrow>
          (case (decimal i, decimal f) of
             (Some a, Some b) \<Rightarrow> Some (a + b / 10 ^ length f)
           | _ \<Rightarrow> None)
      | _ \<Rightarrow> None)"

definition plain_float :: "string \<Rightarrow> rat option" where
  "plain_float s =
     (if s \<noteq> [] \<and> hd s = CHR ''-'' then map_option uminus (unsigned_float (tl s))
      else if s \<noteq> [] \<and> hd s = CHR ''+'' then unsigned_float (tl s)
      else unsigned_float s)"

definition is_leap :: "nat \<Rightarrow> bool" where
  "is_leap y = (y mod 4 = 0 \<and> (y mod 100 \<noteq> 0 \<or> y mod 400 = 0))"

definition days_in_month :: "nat \<Rightarrow> nat \<Rightarrow> nat" where
  "days_in_month y m =
     (if m = 2 then (if is_leap y then 29 else 28)
      else if m \<in> {4, 6, 9, 11} then 30 else 31)"

definition plain_fromisoformat :: "string \<Rightarrow> datetime option" where
  "plain_fromisoformat s =
     (if length s = 19 \<and> s ! 4 = CHR ''-'' \<and> s ! 7 = CHR ''-'' \<and>
         s ! 13 = CHR '':'' \<and> s ! 16 = CHR '':''
      then
        (case (decimal (take 4 s), decimal (take 2 (drop 5 s)), decimal (take 2 (drop 8 s)),
               decimal (take 2 (drop 11 s)), decimal (take 2 (drop 14 s)),
               decimal (take 2 (drop 17 s))) of
           (Some y, Some mo, Some d, Some h, Some mi, Some se) \<Rightarrow>
             if 1 \<le> y \<and> 1 \<le> mo \<and> mo \<le> 12 \<and> 1 \<le> d \<and> d \<le> days_in_month y mo \<and>
                h < 24 \<and> mi < 60 \<and> se < 60
             then Some \<lparr>year = y, month = mo, day = d, hour = h, minute = mi, second = se\<rparr>
             else None
         | _ \<Rightarrow> None)
      else None)"

text \<open>
  \<open>plain_lib\<close> reads a decimal as the number it writes and computes without rounding: the
  arithmetic of the scenarios that are stated in decimal notation.
\<close>

definition plain_lib :: pylib where
  "plain_lib =
     \<lparr>fromisoformat = plain_fromisoformat, py_int = plain_int, py_float = plain_float,
      float_add = (\<lambda>x y. x + y), true_div = (\<lambda>a b. Some (of_int a / of_int b))\<rparr>"

subsection \<open>Rounding to binary64\<close>

text \<open>
  The float nearest to a rational number, ties going to the even significand (the
  rounding of IEEE 754 binary64, which \<open>float\<close> on a decimal string, the addition of
  floats and the true division of integers all apply to the exact result). A positive
  \<open>p / q\<close> with \<open>2 ^ e \<le> p / q < 2 ^ (e + 1)\<close> is rounded to a multiple of
  \<open>2 ^ (e - 52)\<close>, of \<open>2 ^ (- 1074)\<close> when \<open>e < - 1022\<close>; \<open>None\<close> when the result would be
  \<open>2 ^ 1024\<close> or more.
\<close>

text \<open>\<open>n.bit_length()\<close> for \<open>n\<close> not negative.\<close>

function bit_length :: "int \<Rightarrow> int" where
  "bit_length n = (if n \<le> 0 then 0 else 1 + bit_length (n div 2))"
  by pat_completeness auto
termination by (relation "measure nat") auto

declare bit_length.simps [simp del]

text \<open>\<open>shift n k\<close> is \<open>n * 2 ^ k\<close> for \<open>k\<close> positive, and \<open>n\<close> otherwise.\<close>

definition shift :: "int \<Rightarrow> int \<Rightarrow> int" where
  "shift n k = (if k \<le> 0 then n else n * 2 ^ nat k)"

text \<open>The integer nearest to \<open>a / b\<close> for \<open>b\<close> positive, the even one of two at equal distance.\<close>

definition round_half_even :: "int \<Rightarrow> int \<Rightarrow> int" where
  "round_half_even a b =
     (let n = a div b; r = a mod b in
      if 2 * r < b then n else if b < 2 * r then n + 1
      else if even n then n else n + 1)"

text \<open>The \<open>e\<close> with \<open>2 ^ e \<le> p / q < 2 ^ (e + 1)\<close>, for \<open>p\<close> and \<open>q\<close> positive.\<close>

definition exponent :: "int \<Rightarrow> int \<Rightarrow> int" where
  "exponent p q =
     (let d = bit_length p - bit_length q in
      if shift q d \<le> shift p (- d) then d else d - 1)"

definition round64_pos :: "int \<Rightarrow> int \<Rightarrow> rat option" where
  "round64_pos p q =
     (let k = max (exponent p q) (- 1022) - 52;
          n = round_half_even (shift p (- k)) (shift q k) in
      if 2 ^ 1024 \<le> shift n k then None
      else Some (Fract (shift n k) (shift 1 (- k))))"

definition round64 :: "rat \<Rightarrow> rat option" where
  "round64 x =
     (let (p, q) = quotient_of x in
      if p = 0 then Some 0
      else if 0 < p then round64_pos p q
      else map_option uminus (round64_pos (- p) q))"

text \<open>
  \<open>binary64_lib\<close> rounds as CPython does: \<open>float\<close> on a plain decimal gives the nearest
  float, \<open>x + y\<close> and \<open>a / b\<close> the float nearest to the exact result, \<open>a / b\<close> raising
  \<open>OverflowError\<close> beyond the range. Where Python continues with \<open>inf\<close> (a decimal or a
  sum beyond the range) the instance has no float to give: \<open>float\<close> gives \<open>None\<close> there
  and the sum is left unrounded; it is not evaluated on such values.
\<close>

definition binary64_lib :: pylib where
  "binary64_lib =
     \<lparr>fromisoformat = plain_fromisoformat, py_int = plain_int,
      py_float = (\<lambda>s. case plain_float s of None \<Rightarrow> None | Some x \<Rightarrow> round64 x),
      float_add = (\<lambda>x y. case round64 (x + y) of None \<Rightarrow> x + y | Some r \<Rightarrow> r),
      true_div = (\<lambda>a b. round64 (of_int a / of_int b))\<rparr>"

subsection \<open>The analyser after a successful update, in closed form\<close>

text \<open>
  Auxiliary definitions for the proofs: the integers that \<open>int\<close> makes of a sale's
  quantities (\<open>None\<close> when it rejects one), \<open>d[k] = d.get(k, 0) + v\<close>, and the analyser
  that \<open>update_metrics\<close> leaves when nothing raises (lemma \<open>update_metrics_eq\<close>).
\<close>

definition quantities_of :: "pylib \<Rightarrow> sale \<Rightarrow> int list option" where
  "quantities_of L s = those (map (\<lambda>p. py_int L (quantity p)) (products s))"

definition dict_add :: "('k \<times> 'v::monoid_add) list \<Rightarrow> 'k \<Rightarrow> 'v \<Rightarrow> ('k \<times> 'v) list" where
  "dict_add d k v = dict_set d k (dict_get d k 0 + v)"

definition after_sale :: "pylib \<Rightarrow> analyser \<Rightarrow> sale \<Rightarrow> int list \<Rightarrow> rat \<Rightarrow> analyser" where
  "after_sale L self s qs amt =
     self\<lparr>daily_volume := dict_add (daily_volume self) (date_of (timestamp s)) (sum_list qs),
          daily_value :=
            dict_set (daily_value self) (date_of (timestamp s))
              (float_add L (dict_get (daily_value self) (date_of (timestamp s)) 0) amt),
          product_volume :=
            fold (\<lambda>(k, q) pv. dict_add pv k q) (zip (map product_id (products s)) qs)
              (product_volume self),
          monthly_staff_sales :=
            dict_set (monthly_staff_sales self) (strftime_Ym (timestamp s))
              (dict_add (dict_get (monthly_staff_sales self) (strftime_Ym (timestamp s)) [])
                 (staff s) (sum_list qs)),
          hourly_volumes :=
            dict_set (hourly_volumes self) (hour (timestamp s))
              (dict_get (hourly_volumes self) (hour (timestamp s)) [] @ [sum_list qs])\<rparr>"

subsection \<open>Scenario data\<close>

text \<open>The two lines of the scenario, the sales they parse to, and the analyser after each.\<close>

definition line1 :: string where
  "line1 = ''4,2025-01-01T16:58:53,[726107:5|553776:5],2114.235''"

definition line2 :: string where
  "line2 = ''7,2025-01-01T09:10:00,[726107:3],500.00''"

definition sale1 :: sale where
  "sale1 =
     \<lparr>staff = ''4'',
      timestamp = \<lparr>year = 2025, month = 1, day = 1, hour = 16, minute = 58, second = 53\<rparr>,
      products = [\<lparr>product_id = ''726107'', quantity = ''5''\<rparr>,
                  \<lparr>product_id = ''553776'', quantity = ''5''\<rparr>],
      amount = ''2114.235''\<rparr>"

definition sale2 :: sale where
  "sale2 =
     \<lparr>staff = ''7'',
      timestamp = \<lparr>year = 2025, month = 1, day = 1, hour = 9, minute = 10, second = 0\<rparr>,
      products = [\<lparr>product_id = ''726107'', quantity = ''3''\<rparr>],
      amount = ''500.00''\<rparr>"

definition analyser1 :: analyser where
  "analyser1 =
     \<lparr>transactions = [],
      daily_volume = [((2025, 1, 1), 10)],
      daily_value = [((2025, 1, 1), 2114235 / 1000)],
      product_volume = [(''726107'', 5), (''553776'', 5)],
      monthly_staff_sales = [(''2025-01'', [(''4'', 10)])],
      hourly_volumes = [(16, [10])]\<rparr>"

definition analyser2 :: analyser where
  "analyser2 =
     \<lparr>transactions = [],
      daily_volume = [((2025, 1, 1), 13)],
      daily_value = [((2025, 1, 1), 2614235 / 1000)],
      product_volume = [(''726107'', 8), (''553776'', 5)],
      monthly_staff_sales = [(''2025-01'', [(''4'', 10), (''7'', 3)])],
      hourly_volumes = [(16, [10]), (9, [3])]\<rparr>"

definition abc_line :: string where
  "abc_line = ''4,2025-01-01T16:58:53,[726107:abc],2114.235''"

definition abc_sale :: sale where
  "abc_sale =
     \<lparr>staff = ''4'',
      timestamp = \<lparr>year = 2025, month = 1, day = 1, hour = 16, minute = 58, second = 53\<rparr>,
      products = [\<lparr>product_id = ''726107'', quantity = ''abc''\<rparr>],
      amount = ''2114.235''\<rparr>"

definition open_bracket_line :: string where
  "open_bracket_line = ''4,2025-01-01T16:58:53,[726107:5|553776:5,2114.235''"

definition open_bracket_sale :: sale where
  "open_bracket_sale =
     \<lparr>staff = ''4'',
      timestamp = \<lparr>year = 2025, month = 1, day = 1, hour = 16, minute = 58, second = 53\<rparr>,
      products = [\<lparr>product_id = ''726107'', quantity = ''5''\<rparr>,
                  \<lparr>product_id = ''553776'', quantity = []\<rparr>],
      amount = ''2114.235''\<rparr>"

text \<open>A line whose only product entry has no colon.\<close>

definition no_colon_line :: string where
  "no_colon_line = ''4,2025-01-01T16:58:53,[726107],2114.235''"

text \<open>
  Growth of an analyser: \<open>entries_kept\<close> says that every key is still there (of the five
  dictionaries and of the inner dictionaries of \<open>monthly_staff_sales\<close>) and that each list
  of \<open>hourly_volumes\<close> was only extended; \<open>never_less\<close> says in addition that no
  accumulated number went down.
\<close>

definition entries_kept :: "analyser \<Rightarrow> analyser \<Rightarrow> bool" where
  "entries_kept a b \<longleftrightarrow>
     fst ` set (daily_volume a) \<subseteq> fst ` set (daily_volume b) \<and>
     fst ` set (daily_value a) \<subseteq> fst ` set (daily_value b) \<and>
     fst ` set (product_volume a) \<subseteq> fst ` set (product_volume b) \<and>
     (\<forall>m d. map_of (monthly_staff_sales a) m = Some d \<longrightarrow>
        (\<exists>e. map_of (monthly_staff_sales b) m = Some e \<and> fst ` set d \<subseteq> fst ` set e)) \<and>
     (\<forall>h vs. map_of (hourly_volumes a) h = Some vs \<longrightarrow>
        (\<exists>more. map_of (hourly_volumes b) h = Some (vs @ more)))"

definition dict_le :: "('k \<times> 'v::preorder) list \<Rightarrow> ('k \<times> 'v) list \<Rightarrow> bool" where
  "dict_le d e \<longleftrightarrow> (\<forall>k v. map_of d k = Some v \<longrightarrow> (\<exists>w. map_of e k = Some w \<and> v \<le> w))"

definition never_less :: "analyser \<Rightarrow> analyser \<Rightarrow> bool" where
  "never_less a b \<longleftrightarrow>
     dict_le (daily_volume a) (daily_volume b) \<and>
     dict_le (daily_value a) (daily_value b) \<and>
     dict_le (product_volume a) (product_volume b) \<and>
     (\<forall>m d. map_of (monthly_staff_sales a) m = Some d \<longrightarrow>
        (\<exists>e. map_of (monthly_staff_sales b) m = Some e \<and> dict_le d e))"

text \<open>A sale whose quantities and amount, as far as they convert, are not negative.\<close>

definition nonneg_sale :: "pylib \<Rightarrow> sale \<Rightarrow> bool" where
  "nonneg_sale L s \<longleftrightarrow>
     (\<forall>p\<in>set (products s). \<forall>q. py_int L (quantity p) = Some q \<longrightarrow> 0 \<le> q) \<and>
     (\<forall>a. py_float L (amount s) = Some a \<longrightarrow> 0 \<le> a)"

text \<open>
  What the sums of \<open>daily_value\<close> need of the addition of floats: \<open>F\<close> is a set of values
  (the floats) that holds 0 and whatever \<open>float\<close> returns and is closed under the
  addition, and adding a value of \<open>F\<close> that is not negative never gives less. The
  addition of IEEE 754 is of this kind on the finite floats, as long as no sum overflows.
\<close>

definition adds_upward :: "pylib \<Rightarrow> rat set \<Rightarrow> bool" where
  "adds_upward L F \<longleftrightarrow>
     0 \<in> F \<and> (\<forall>s x. py_float L s = Some x \<longrightarrow> x \<in> F) \<and>
     (\<forall>x\<in>F. \<forall>y\<in>F. float_add L x y \<in> F \<and> (0 \<le> y \<longrightarrow> x \<le> float_add L x y))"

text \<open>A line with a negative quantity, the sale it parses to, and the analyser after it.\<close>

definition refund_line :: string where
  "refund_line = ''4,2025-01-01T16:58:53,[726107:-5],10.00''"

definition refund_sale :: sale where
  "refund_sale =
     \<lparr>staff = ''4'',
      timestamp = \<lparr>year = 2025, month = 1, day = 1, hour = 16, minute = 58, second = 53\<rparr>,
      products = [\<lparr>product_id = ''726107'', quantity = ''-5''\<rparr>],
      amount = ''10.00''\<rparr>"

definition analyser1_refund :: analyser where
  "analyser1_refund =
     \<lparr>transactions = [],
      daily_volume = [((2025, 1, 1), 5)],
      daily_value = [((2025, 1, 1), 2124235 / 1000)],
      product_volume = [(''726107'', 0), (''553776'', 5)],
      monthly_staff_sales = [(''2025-01'', [(''4'', 5)])],
      hourly_volumes = [(16, [10, - 5])]\<rparr>"

text \<open>
  The dictionaries as finite maps, and what one sale adds to each of them: for the proofs
  on the order of the sales. A sale that does not convert adds nothing here (the update
  raises on it).
\<close>

definition map_add_at :: "('k \<rightharpoonup> 'v::monoid_add) \<Rightarrow> 'k \<Rightarrow> 'v \<Rightarrow> ('k \<rightharpoonup> 'v)" where
  "map_add_at m k v = m(k \<mapsto> (case m k of None \<Rightarrow> 0 | Some x \<Rightarrow> x) + v)"

definition sale_volume :: "pylib \<Rightarrow> sale \<Rightarrow> int" where
  "sale_volume L s = (case quantities_of L s of None \<Rightarrow> 0 | Some qs \<Rightarrow> sum_list qs)"


definition inner_maps :: "('k \<times> ('j \<times> 'v) list) list \<Rightarrow> 'k \<Rightarrow> ('j \<rightharpoonup> 'v) option" where
  "inner_maps d k = map_option map_of (map_of d k)"


definition inner_add_at ::
  "('k \<Rightarrow> ('j \<rightharpoonup> 'v::monoid_add) option) \<Rightarrow> 'k \<Rightarrow> 'j \<Rightarrow> 'v \<Rightarrow> ('k \<Rightarrow> ('j \<rightharpoonup> 'v) option)" where
  "inner_add_at M k j v =
     M(k \<mapsto> map_add_at (case M k of None \<Rightarrow> Map.empty | Some m \<Rightarrow> m) j v)"







text \<open>
  Two sales in the hours 9 and 10 with the quantities \<open>2 ^ 53\<close> and \<open>2 ^ 53 + 1\<close>, and a
  sale whose quantity, 2 followed by 308 zeros, is beyond the range of floats.
\<close>

definition hour9_line :: string where
  "hour9_line = ''1,2025-01-01T09:00:00,[726107:9007199254740992],1.00''"

definition hour10_line :: string where
  "hour10_line = ''1,2025-01-01T10:00:00,[726107:9007199254740993],1.00''"

definition huge_line :: string where
  "huge_line = ''1,2025-01-01T09:00:00,[726107:200000000000000000000000000000000000000000000000000000000000000000000000000000000000000000000000000000000000000000000000000000000000000000000000000000000000000000000000000000000000000000000000000000000000000000000000000000000000000000000000000000000000000000000000000000000000000000000000000000000000000000000],1.00''"

text \<open>
  What holds of every analyser that the updates build: keys occur once, the inner
  dictionaries of \<open>monthly_staff_sales\<close> and the lists of \<open>hourly_volumes\<close> are not empty.
\<close>

definition wf_analyser :: "analyser \<Rightarrow> bool" where
  "wf_analyser a \<longleftrightarrow>
     distinct (map fst (daily_volume a)) \<and> distinct (map fst (daily_value a)) \<and>
     distinct (map fst (product_volume a)) \<and> distinct (map fst (monthly_staff_sales a)) \<and>
     distinct (map fst (hourly_volumes a)) \<and>
     (\<forall>(mon, items)\<in>set (monthly_staff_sales a). items \<noteq> [] \<and> distinct (map fst items)) \<and>
     (\<forall>(hr, vs)\<in>set (hourly_volumes a). vs \<noteq> [])"

text \<open>
  A time stamp whose year has four digits (from 1000, where \<open>%Y\<close> is the same on every
  platform, to the 9999 that \<open>datetime\<close> ends at) and whose month is a month.
\<close>

definition four_digit_year :: "datetime \<Rightarrow> bool" where
  "four_digit_year t \<longleftrightarrow> 1000 \<le> year t \<and> year t \<le> 9999 \<and> 1 \<le> month t \<and> month t \<le> 12"

text \<open>The calendar order of (year, month) pairs.\<close>

definition earlier_month :: "nat \<times> nat \<Rightarrow> nat \<times> nat \<Rightarrow> bool" where
  "earlier_month a b \<longleftrightarrow> fst a < fst b \<or> (fst a = fst b \<and> snd a < snd b)"

text \<open>A sale of December 2024, read after the scenario's first sale of January 2025.\<close>

definition december_line :: string where
  "december_line = ''7,2024-12-31T09:10:00,[726107:3],500.00''"

definition december_sale :: sale where
  "december_sale =
     \<lparr>staff = ''7'',
      timestamp = \<lparr>year = 2024, month = 12, day = 31, hour = 9, minute = 10, second = 0\<rparr>,
      products = [\<lparr>product_id = ''726107'', quantity = ''3''\<rparr>],
      amount = ''500.00''\<rparr>"

definition two_years :: analyser where
  "two_years =
     \<lparr>transactions = [sale1, december_sale],
      daily_volume = [((2025, 1, 1), 10), ((2024, 12, 31), 3)],
      daily_value = [((2025, 1, 1), 2114235 / 1000), ((2024, 12, 31), 500)],
      product_volume = [(''726107'', 8), (''553776'', 5)],
      monthly_staff_sales = [(''2025-01'', [(''4'', 10)]), (''2024-12'', [(''7'', 3)])],
      hourly_volumes = [(16, [10]), (9, [3])]\<rparr>"

section \<open>Sequencing, dictionaries, and update_metrics in closed form\<close>

lemma on_ok_simps [simp]:
  "on_ok (Inl e) f = Inl e" "on_ok (Inr x) f = f x"
  by (simp_all add: on_ok_def)

lemma on_ok_Inr_iff: "on_ok r f = Inr y \<longleftrightarrow> (\<exists>x. r = Inr x \<and> f x = Inr y)"
  by (cases r) simp_all

lemma or_raise_simps [simp]:
  "or_raise e None = Inl e" "or_raise e (Some x) = Inr x"
  by (simp_all add: or_raise_def)

lemma map_of_dict_set [simp]: "map_of (dict_set d k v) = (map_of d)(k \<mapsto> v)"
  by (induction d) (auto simp: fun_eq_iff)

lemma dict_set_twice [simp]: "dict_set (dict_set d k x) k y = dict_set d k y"
  by (induction d) auto

lemma map_fst_dict_set:
  "map fst (dict_set d k v) = (if k \<in> fst ` set d then map fst d else map fst d @ [k])"
  by (induction d) force+

lemma keys_dict_set [simp]: "fst ` set (dict_set d k v) = insert k (fst ` set d)"
proof -
  have "set (map fst (dict_set d k v)) = insert k (set (map fst d))"
    unfolding map_fst_dict_set by auto
  then show ?thesis by simp
qed

lemma distinct_dict_set [simp]:
  "distinct (map fst d) \<Longrightarrow> distinct (map fst (dict_set d k v))"
  by (simp add: map_fst_dict_set)

lemma dict_get_dict_set [simp]:
  "dict_get (dict_set d k v) k' dflt = (if k' = k then v else dict_get d k' dflt)"
  by (simp add: dict_get_def)

lemma dict_lookup_dict_set [simp]: "dict_lookup (dict_set d k v) k = Inr v"
  by (simp add: dict_lookup_def)

lemma dict_lookup_present:
  "map_of d k \<noteq> None \<Longrightarrow> dict_lookup d k = Inr (dict_get d k dflt)"
  by (auto simp: dict_lookup_def dict_get_def)

lemma dict_get_absent: "map_of d k = None \<Longrightarrow> dict_get d k dflt = dflt"
  by (simp add: dict_get_def)

lemma sum_quantities_those:
  "sum_quantities L acc ps =
     (case those (map (\<lambda>p. py_int L (quantity p)) ps) of
        None \<Rightarrow> Inl ValueError
      | Some qs \<Rightarrow> Inr (acc + sum_list qs))"
  by (induction ps arbitrary: acc) (auto split: option.splits)

lemma update_product_volume_those:
  "update_product_volume L pv ps =
     (case those (map (\<lambda>p. py_int L (quantity p)) ps) of
        None \<Rightarrow> Inl ValueError
      | Some qs \<Rightarrow> Inr (fold (\<lambda>(k, q) pv. dict_add pv k q) (zip (map product_id ps) qs) pv))"
  by (induction ps arbitrary: pv) (auto simp: dict_add_def split: option.splits)

lemma update_metrics_eq:
  "update_metrics L self s =
     (case quantities_of L s of
        None \<Rightarrow> Inl ValueError
      | Some qs \<Rightarrow>
          (case py_float L (amount s) of
             None \<Rightarrow> Inl ValueError
           | Some amt \<Rightarrow> Inr (after_sale L self s qs amt)))"
proof (cases "quantities_of L s")
  case None
  then show ?thesis
    by (simp add: update_metrics_def quantities_of_def sum_quantities_those)
next
  case (Some qs)
  note qs = this
  show ?thesis
  proof (cases "py_float L (amount s)")
    case None
    with qs show ?thesis
      by (simp add: update_metrics_def quantities_of_def sum_quantities_those Let_def)
  next
    case (Some amt)
    have hv: "map_of (hourly_volumes self) (hour (timestamp s)) \<noteq> None \<Longrightarrow>
        dict_lookup (hourly_volumes self) (hour (timestamp s)) =
          Inr (dict_get (hourly_volumes self) (hour (timestamp s)) [])"
      by (rule dict_lookup_present)
    from qs Some show ?thesis
      using hv
      by (auto simp: update_metrics_def quantities_of_def sum_quantities_those Let_def
          update_product_volume_those after_sale_def dict_add_def dict_get_absent)
  qed
qed

lemma those_eq_None_iff: "those (map f xs) = None \<longleftrightarrow> (\<exists>x\<in>set xs. f x = None)"
  by (induction xs) (auto split: option.splits)

lemma those_map_Some: "those (map f xs) = Some ys \<Longrightarrow> map f xs = map Some ys"
  by (induction xs arbitrary: ys) (auto split: option.splits)

section \<open>The scenario of two lines\<close>

lemma parse_line1: "parse_line plain_lib line1 = Inr sale1"
  by code_simp

lemma parse_line2: "parse_line plain_lib line2 = Inr sale2"
  by code_simp

lemma update_sale1: "update_metrics plain_lib init sale1 = Inr analyser1"
  by code_simp

lemma update_sale2: "update_metrics plain_lib analyser1 sale2 = Inr analyser2"
  by code_simp

lemma scenario_ingest:
  "get_transactions plain_lib init [line1, line2] =
     Inr (analyser2\<lparr>transactions := [sale1, sale2]\<rparr>)"
  by (simp add: get_transactions_def on_ok_def parse_line1 parse_line2 update_sale1 update_sale2)

lemma scenario_metrics:
  "report_metrics plain_lib (analyser2\<lparr>transactions := [sale1, sale2]\<rparr>) =
     Inr \<lparr>highest_volume_day = ((2025, 1, 1), 13),
          highest_value_day = ((2025, 1, 1), 2614235 / 1000),
          most_sold_product = (''726107'', 8),
          monthly_top_staff = [(''2025-01'', ''4'', 10)],
          month_rows = [(''2025-01'', ''4'', 10)],
          peak_hour = (16, 10),
          month_lines = [(''January'', ''4'', 10)]\<rparr>"
  by code_simp


section \<open>Reporting on an empty analyser\<close>

text \<open>
  C4. When no sale was ever folded in, computing the metrics raises an error (the
  \<open>ValueError\<close> of \<open>max\<close> on an empty sequence) instead of returning metrics.
\<close>

theorem report_on_empty_fails:
  "get_transactions L init [] = Inr init \<and> fst (print_metrics L init) = Inl ValueError"
  by (simp add: get_transactions_def init_def print_metrics_def report_metrics_def
      compute_metrics_def on_ok_def)

section \<open>What one update contributes, and when it fails\<close>

text \<open>
  C9. When \<open>update_metrics\<close> succeeds on a sale, one number, the sum of the integers of
  the sale's quantities, is what is added to \<open>daily_volume\<close> at the sale's date, what is
  added to \<open>monthly_staff_sales\<close> at the sale's month and staff, and what is appended to
  \<open>hourly_volumes\<close> at the sale's hour.
\<close>

theorem sale_volume_contribution:
  assumes "update_metrics L self s = Inr self'"
  shows "\<exists>qs. map (\<lambda>p. py_int L (quantity p)) (products s) = map Some qs \<and>
     dict_get (daily_volume self') (date_of (timestamp s)) 0 =
       dict_get (daily_volume self) (date_of (timestamp s)) 0 + sum_list qs \<and>
     dict_get (dict_get (monthly_staff_sales self') (strftime_Ym (timestamp s)) []) (staff s) 0 =
       dict_get (dict_get (monthly_staff_sales self) (strftime_Ym (timestamp s)) []) (staff s) 0
         + sum_list qs \<and>
     dict_get (hourly_volumes self') (hour (timestamp s)) [] =
       dict_get (hourly_volumes self) (hour (timestamp s)) [] @ [sum_list qs]"
proof -
  from assms obtain qs amt where qs: "quantities_of L s = Some qs"
    and self': "self' = after_sale L self s qs amt"
    by (auto simp: update_metrics_eq split: option.splits)
  have "map (\<lambda>p. py_int L (quantity p)) (products s) = map Some qs"
    using qs unfolding quantities_of_def by (rule those_map_Some)
  then show ?thesis
    by (intro exI [of _ qs]) (simp add: self' after_sale_def dict_add_def)
qed

text \<open>The first sale of the scenario, folded into the initial analyser.\<close>

theorem sale_volume_contribution_witness:
  "update_metrics plain_lib init sale1 = Inr analyser1 \<and>
   (\<exists>qs. map (\<lambda>p. py_int plain_lib (quantity p)) (products sale1) = map Some qs \<and>
     dict_get (daily_volume analyser1) (date_of (timestamp sale1)) 0 =
       dict_get (daily_volume init) (date_of (timestamp sale1)) 0 + sum_list qs \<and>
     dict_get (dict_get (monthly_staff_sales analyser1) (strftime_Ym (timestamp sale1)) [])
         (staff sale1) 0 =
       dict_get (dict_get (monthly_staff_sales init) (strftime_Ym (timestamp sale1)) [])
         (staff sale1) 0 + sum_list qs \<and>
     dict_get (hourly_volumes analyser1) (hour (timestamp sale1)) [] =
       dict_get (hourly_volumes init) (hour (timestamp sale1)) [] @ [sum_list qs])"
  using sale_volume_contribution [OF update_sale1] update_sale1 by simp

text \<open>
  C3, as stated, fails: the parser keeps the quantities and the amount as strings and
  converts nothing. The line below parses, and \<open>update_metrics\<close> raises \<open>ValueError\<close>
  on the sale it parses to, when \<open>int\<close> meets the quantity \<open>abc\<close>.
\<close>

lemma parse_abc_line: "parse_line plain_lib abc_line = Inr abc_sale"
  by code_simp

lemma update_abc_sale: "update_metrics plain_lib init abc_sale = Inl ValueError"
  by code_simp

theorem update_fails_on_parsed_sale:
  "parse_line plain_lib ''4,2025-01-01T16:58:53,[726107:abc],2114.235'' = Inr abc_sale \<and>
   update_metrics plain_lib init abc_sale = Inl ValueError"
  using parse_abc_line update_abc_sale by (simp add: abc_line_def)

text \<open>
  C3, amended. \<open>update_metrics\<close> succeeds on a sale exactly when \<open>int\<close> accepts every
  quantity of the sale and \<open>float\<close> accepts its amount; otherwise it raises
  \<open>ValueError\<close>. Whatever the analyser holds plays no part.
\<close>

theorem update_metrics_succeeds_iff:
  "((\<exists>self'. update_metrics L self s = Inr self') \<longleftrightarrow>
      (\<forall>p\<in>set (products s). py_int L (quantity p) \<noteq> None) \<and> py_float L (amount s) \<noteq> None) \<and>
   ((\<exists>self'. update_metrics L self s = Inr self') \<or> update_metrics L self s = Inl ValueError)"
proof -
  have "quantities_of L s = None \<longleftrightarrow> (\<exists>p\<in>set (products s). py_int L (quantity p) = None)"
    by (simp add: quantities_of_def those_eq_None_iff)
  then show ?thesis
    by (cases "quantities_of L s"; cases "py_float L (amount s)")
       (auto simp: update_metrics_eq)
qed

theorem update_metrics_succeeds_iff_witness:
  "py_int plain_lib ''5'' = Some 5 \<and> py_float plain_lib ''2114.235'' = Some 2114.235 \<and>
   (\<exists>self'. update_metrics plain_lib init sale1 = Inr self')"
proof -
  have q: "py_int plain_lib ''5'' = Some 5"
    by code_simp
  have a: "py_float plain_lib ''2114.235'' = Some (2114235 / 1000)"
    by code_simp
  have "(\<forall>p\<in>set (products sale1). py_int plain_lib (quantity p) \<noteq> None) \<and>
        py_float plain_lib (amount sale1) \<noteq> None"
    using q a by (simp add: sale1_def)
  with update_metrics_succeeds_iff [of plain_lib init sale1] q a show ?thesis
    by simp
qed

section \<open>What the parser rejects\<close>

lemma str_split_not_Nil [simp]: "str_split sep s \<noteq> []"
  by (induction s) (auto split: list.splits)

lemma format_products_loop_eq:
  "format_products_loop acc toks =
     (if \<forall>t\<in>set toks. length (str_split CHR '':'' t) = 2
      then Inr (acc @ map (\<lambda>t. \<lparr>product_id = str_split CHR '':'' t ! 0,
                                  quantity = str_split CHR '':'' t ! 1\<rparr>) toks)
      else Inl ValueError)"
proof (induction toks arbitrary: acc)
  case Nil
  show ?case by simp
next
  case (Cons t toks)
  show ?case
  proof (cases "length (str_split CHR '':'' t) = 2")
    case True
    then obtain a b where ab: "str_split CHR '':'' t = [a, b]"
      by (auto simp: length_Suc_conv numeral_2_eq_2)
    show ?thesis
      by (simp add: ab Cons.IH)
  next
    case False
    then have "format_products_loop acc (t # toks) = Inl ValueError"
      by (auto split: list.splits)
    with False show ?thesis by simp
  qed
qed

lemma getitem_simps:
  "i < length xs \<Longrightarrow> getitem xs i = Inr (xs ! i)"
  "\<not> i < length xs \<Longrightarrow> getitem xs i = Inl IndexError"
  by (simp_all add: getitem_def)

lemma Sale_init_fails_iff:
  "(\<exists>e. Sale_init L record = Inl e) \<longleftrightarrow>
     length record < 4 \<or> fromisoformat L (record ! 1) = None \<or>
     (\<exists>t\<in>set (str_split CHR ''|'' (butlast (tl (record ! 2)))).
        length (str_split CHR '':'' t) \<noteq> 2)"
proof (cases "length record < 4")
  case True
  then consider "length record = 0" | "length record = 1" | "length record = 2"
    | "length record = 3" by linarith
  then have "\<exists>e. Sale_init L record = Inl e"
  proof cases
    case 1 then show ?thesis by (simp add: Sale_init_def getitem_def)
  next
    case 2 then show ?thesis
      by (simp add: Sale_init_def getitem_def)
  next
    case 3 then show ?thesis
      by (cases "format_timestamp L (record ! 1)") (simp_all add: Sale_init_def getitem_def)
  next
    case 4 then show ?thesis
      by (cases "format_timestamp L (record ! 1)"; cases "format_products (record ! 2)")
         (simp_all add: Sale_init_def getitem_def)
  qed
  with True show ?thesis by simp
next
  case False
  then show ?thesis
    by (cases "fromisoformat L (record ! 1)")
       (auto simp: Sale_init_def getitem_def format_timestamp_def format_products_def
          format_products_loop_eq)
qed

text \<open>
  C2, amended. Parsing a line raises exactly when the stripped line splits at commas into
  fewer than four fields, or \<open>fromisoformat\<close> rejects the second field, or some entry
  between the \<open>|\<close> signs of the third field, taken without its first and its last
  character, does not split at colons into exactly two parts. Fields after the fourth,
  the brackets themselves, the quantities and the amount are not looked at.
\<close>

theorem parse_line_fails_iff:
  "(\<exists>e. parse_line L line = Inl e) \<longleftrightarrow>
     (let record = str_split CHR '','' (strip line) in
      length record < 4 \<or> fromisoformat L (record ! 1) = None \<or>
      (\<exists>t\<in>set (str_split CHR ''|'' (butlast (tl (record ! 2)))).
         length (str_split CHR '':'' t) \<noteq> 2))"
  by (simp add: parse_line_def Sale_init_fails_iff Let_def)

text \<open>A product entry without a colon: the parser raises.\<close>

lemma no_colon_fields:
  "str_split CHR '','' (strip no_colon_line) =
     [''4'', ''2025-01-01T16:58:53'', ''[726107]'', ''2114.235'']"
  by code_simp

lemma no_colon_entry: "str_split CHR ''|'' (butlast (tl ''[726107]'')) = [''726107'']"
  by code_simp

lemma no_colon_tokens: "str_split CHR '':'' ''726107'' = [''726107'']"
  by code_simp

theorem parse_line_fails_iff_witness:
  "str_split CHR '':'' ''726107'' = [''726107''] \<and>
   (\<exists>e. parse_line plain_lib ''4,2025-01-01T16:58:53,[726107],2114.235'' = Inl e)"
  using parse_line_fails_iff [of plain_lib no_colon_line] no_colon_tokens
  by (simp add: no_colon_fields no_colon_entry Let_def) (simp add: no_colon_line_def)

text \<open>
  C2, as stated, fails: a line whose product list lacks the closing bracket parses (the
  slice takes the last digit for the bracket and leaves an empty quantity), and so does
  a line with the quantity \<open>abc\<close>.
\<close>

lemma parse_open_bracket_line: "parse_line plain_lib open_bracket_line = Inr open_bracket_sale"
  by code_simp

theorem parse_accepts_open_bracket:
  "parse_line plain_lib ''4,2025-01-01T16:58:53,[726107:5|553776:5,2114.235'' =
     Inr \<lparr>staff = ''4'',
          timestamp = \<lparr>year = 2025, month = 1, day = 1, hour = 16, minute = 58, second = 53\<rparr>,
          products = [\<lparr>product_id = ''726107'', quantity = ''5''\<rparr>,
                      \<lparr>product_id = ''553776'', quantity = []\<rparr>],
          amount = ''2114.235''\<rparr> \<and>
   parse_line plain_lib ''4,2025-01-01T16:58:53,[726107:abc],2114.235'' = Inr abc_sale"
  using parse_open_bracket_line parse_abc_line
  by (simp add: open_bracket_line_def open_bracket_sale_def abc_line_def)

section \<open>The analyser only grows\<close>

lemma keys_map_of: "k \<in> fst ` set d \<longleftrightarrow> map_of d k \<noteq> None"
  by (simp add: map_of_eq_None_iff)

lemma dict_get_Some: "map_of d k = Some v \<Longrightarrow> dict_get d k dflt = v"
  by (simp add: dict_get_def)

lemma keys_dict_add [simp]: "fst ` set (dict_add d k v) = insert k (fst ` set d)"
  by (simp add: dict_add_def)

lemma map_of_dict_add_other: "k' \<noteq> k \<Longrightarrow> map_of (dict_add d k v) k' = map_of d k'"
  by (simp add: dict_add_def)

lemma keys_fold_dict_add:
  "fst ` set (fold (\<lambda>(k, q) pv. dict_add pv k q) kqs d) = fst ` set d \<union> fst ` set kqs"
proof (induction kqs arbitrary: d)
  case Nil
  show ?case by simp
next
  case (Cons x kqs)
  obtain k q where x: "x = (k, q)" by (cases x)
  have "fst ` set (fold (\<lambda>(k, q) pv. dict_add pv k q) (x # kqs) d) =
        insert k (fst ` set d) \<union> fst ` set kqs"
    by (simp add: x Cons.IH)
  also have "\<dots> = fst ` set d \<union> fst ` set (x # kqs)"
    unfolding x by (simp only: list.set image_insert fst_conv) blast
  finally show ?case .
qed

lemma map_of_fold_dict_add_other:
  "k' \<notin> fst ` set kqs \<Longrightarrow> map_of (fold (\<lambda>(k, q) pv. dict_add pv k q) kqs d) k' = map_of d k'"
  by (induction kqs arbitrary: d) (auto simp: map_of_dict_add_other)

lemma dict_le_refl [simp]: "dict_le d d"
  by (auto simp: dict_le_def)

lemma dict_le_trans: "dict_le d e \<Longrightarrow> dict_le e f \<Longrightarrow> dict_le d f"
  unfolding dict_le_def by (meson order_trans)

lemma dict_le_dict_add:
  fixes v :: "'v::ordered_ab_semigroup_monoid_add_imp_le"
  shows "0 \<le> v \<Longrightarrow> dict_le d (dict_add d k v)"
  by (auto simp: dict_le_def dict_add_def dict_get_def)

lemma dict_le_fold_dict_add:
  fixes d :: "('k \<times> int) list"
  shows "\<forall>q\<in>snd ` set kqs. 0 \<le> q \<Longrightarrow> dict_le d (fold (\<lambda>(k, q) pv. dict_add pv k q) kqs d)"
proof (induction kqs arbitrary: d)
  case Nil
  show ?case by simp
next
  case (Cons x kqs)
  obtain k q where x: "x = (k, q)" by (cases x)
  from Cons.prems have q: "0 \<le> q" and rest: "\<forall>q\<in>snd ` set kqs. 0 \<le> q"
    by (simp_all add: x)
  have "dict_le d (dict_add d k q)"
    using q by (rule dict_le_dict_add)
  moreover have "dict_le (dict_add d k q) (fold (\<lambda>(k, q) pv. dict_add pv k q) kqs (dict_add d k q))"
    using rest by (rule Cons.IH)
  ultimately have "dict_le d (fold (\<lambda>(k, q) pv. dict_add pv k q) kqs (dict_add d k q))"
    by (rule dict_le_trans)
  then show ?case
    by (simp add: x)
qed

lemma after_sale_fields [simp]:
  "daily_volume (after_sale L a s qs amt) =
     dict_add (daily_volume a) (date_of (timestamp s)) (sum_list qs)"
  "daily_value (after_sale L a s qs amt) =
     dict_set (daily_value a) (date_of (timestamp s))
       (float_add L (dict_get (daily_value a) (date_of (timestamp s)) 0) amt)"
  "product_volume (after_sale L a s qs amt) =
     fold (\<lambda>(k, q) pv. dict_add pv k q) (zip (map product_id (products s)) qs) (product_volume a)"
  "monthly_staff_sales (after_sale L a s qs amt) =
     dict_set (monthly_staff_sales a) (strftime_Ym (timestamp s))
       (dict_add (dict_get (monthly_staff_sales a) (strftime_Ym (timestamp s)) [])
          (staff s) (sum_list qs))"
  "hourly_volumes (after_sale L a s qs amt) =
     dict_set (hourly_volumes a) (hour (timestamp s))
       (dict_get (hourly_volumes a) (hour (timestamp s)) [] @ [sum_list qs])"
  "transactions (after_sale L a s qs amt) = transactions a"
  by (simp_all add: after_sale_def)

lemma inner_keys_kept:
  assumes "map_of mss m = Some d"
  shows "\<exists>e. map_of (dict_set mss mon (dict_add (dict_get mss mon []) st v)) m = Some e \<and>
           fst ` set d \<subseteq> fst ` set e"
proof (cases "m = mon")
  case True
  with assms have "dict_get mss mon [] = d" by (simp add: dict_get_Some)
  with True show ?thesis by (simp add: subset_insertI)
next
  case False
  with assms show ?thesis by simp
qed

lemma hourly_extended:
  assumes "map_of hv h = Some vs"
  shows "\<exists>more. map_of (dict_set hv hr (dict_get hv hr [] @ [v])) h = Some (vs @ more)"
proof (cases "h = hr")
  case True
  with assms have "dict_get hv hr [] = vs" by (simp add: dict_get_Some)
  with True show ?thesis by simp
next
  case False
  with assms show ?thesis by simp
qed

lemma entries_kept_after_sale: "entries_kept a (after_sale L a s qs amt)"
  unfolding entries_kept_def
proof (intro conjI allI impI)
  show "fst ` set (daily_volume a) \<subseteq> fst ` set (daily_volume (after_sale L a s qs amt))"
    by (simp add: subset_insertI)
  show "fst ` set (daily_value a) \<subseteq> fst ` set (daily_value (after_sale L a s qs amt))"
    by (simp add: subset_insertI)
  show "fst ` set (product_volume a) \<subseteq> fst ` set (product_volume (after_sale L a s qs amt))"
    by (simp add: keys_fold_dict_add)
next
  fix m d assume "map_of (monthly_staff_sales a) m = Some d"
  then show "\<exists>e. map_of (monthly_staff_sales (after_sale L a s qs amt)) m = Some e \<and>
      fst ` set d \<subseteq> fst ` set e"
    unfolding after_sale_fields by (rule inner_keys_kept)
next
  fix h vs assume "map_of (hourly_volumes a) h = Some vs"
  then show "\<exists>more. map_of (hourly_volumes (after_sale L a s qs amt)) h = Some (vs @ more)"
    unfolding after_sale_fields by (rule hourly_extended)
qed

lemma inner_never_less:
  fixes v :: int
  assumes "0 \<le> v" and "map_of mss m = Some d"
  shows "\<exists>e. map_of (dict_set mss mon (dict_add (dict_get mss mon []) st v)) m = Some e \<and>
           dict_le d e"
proof (cases "m = mon")
  case True
  with assms(2) have "dict_get mss mon [] = d" by (simp add: dict_get_Some)
  with True dict_le_dict_add [OF assms(1), of d st] show ?thesis by simp
next
  case False
  with assms(2) show ?thesis by simp
qed

lemma dict_le_dict_set:
  assumes "\<And>w. map_of d k = Some w \<Longrightarrow> w \<le> v"
  shows "dict_le d (dict_set d k v)"
  using assms by (auto simp: dict_le_def)

lemma never_less_after_sale:
  assumes "\<forall>q\<in>set qs. 0 \<le> q"
    and "dict_get (daily_value a) (date_of (timestamp s)) 0 \<le>
         float_add L (dict_get (daily_value a) (date_of (timestamp s)) 0) amt"
  shows "never_less a (after_sale L a s qs amt)"
  unfolding never_less_def
proof (intro conjI allI impI)
  have v: "0 \<le> sum_list qs"
    using assms(1) by (simp add: sum_list_nonneg)
  show "dict_le (daily_volume a) (daily_volume (after_sale L a s qs amt))"
    unfolding after_sale_fields using v by (rule dict_le_dict_add)
  show "dict_le (daily_value a) (daily_value (after_sale L a s qs amt))"
    unfolding after_sale_fields
  proof (rule dict_le_dict_set)
    fix w assume "map_of (daily_value a) (date_of (timestamp s)) = Some w"
    then have "dict_get (daily_value a) (date_of (timestamp s)) 0 = w"
      by (rule dict_get_Some)
    with assms(2)
    show "w \<le> float_add L (dict_get (daily_value a) (date_of (timestamp s)) 0) amt"
      by simp
  qed
  have "\<forall>q\<in>snd ` set (zip (map product_id (products s)) qs). 0 \<le> q"
    using assms(1) by (auto dest!: set_zip_rightD)
  then show "dict_le (product_volume a) (product_volume (after_sale L a s qs amt))"
    unfolding after_sale_fields by (rule dict_le_fold_dict_add)
  fix m d assume "map_of (monthly_staff_sales a) m = Some d"
  with v show "\<exists>e. map_of (monthly_staff_sales (after_sale L a s qs amt)) m = Some e \<and> dict_le d e"
    unfolding after_sale_fields by (rule inner_never_less)
qed

lemma entries_kept_refl [simp]: "entries_kept a a"
  by (simp add: entries_kept_def)

lemma never_less_refl [simp]: "never_less a a"
  by (simp add: never_less_def)

lemma entries_keptD:
  assumes "entries_kept a b"
  shows "fst ` set (daily_volume a) \<subseteq> fst ` set (daily_volume b)"
    and "fst ` set (daily_value a) \<subseteq> fst ` set (daily_value b)"
    and "fst ` set (product_volume a) \<subseteq> fst ` set (product_volume b)"
    and "map_of (monthly_staff_sales a) m = Some d \<Longrightarrow>
           \<exists>e. map_of (monthly_staff_sales b) m = Some e \<and> fst ` set d \<subseteq> fst ` set e"
    and "map_of (hourly_volumes a) h = Some vs \<Longrightarrow>
           \<exists>more. map_of (hourly_volumes b) h = Some (vs @ more)"
  using assms unfolding entries_kept_def by simp_all

lemma entries_kept_trans:
  assumes ab: "entries_kept a b" and bc: "entries_kept b c"
  shows "entries_kept a c"
  unfolding entries_kept_def
proof (intro conjI allI impI)
  show "fst ` set (daily_volume a) \<subseteq> fst ` set (daily_volume c)"
    using entries_keptD(1) [OF ab] entries_keptD(1) [OF bc] by (rule subset_trans)
  show "fst ` set (daily_value a) \<subseteq> fst ` set (daily_value c)"
    using entries_keptD(2) [OF ab] entries_keptD(2) [OF bc] by (rule subset_trans)
  show "fst ` set (product_volume a) \<subseteq> fst ` set (product_volume c)"
    using entries_keptD(3) [OF ab] entries_keptD(3) [OF bc] by (rule subset_trans)
next
  fix m d assume "map_of (monthly_staff_sales a) m = Some d"
  from entries_keptD(4) [OF ab this] obtain e
    where e: "map_of (monthly_staff_sales b) m = Some e" and de: "fst ` set d \<subseteq> fst ` set e"
    by blast
  from entries_keptD(4) [OF bc e] obtain f
    where f: "map_of (monthly_staff_sales c) m = Some f" and ef: "fst ` set e \<subseteq> fst ` set f"
    by blast
  from de ef have "fst ` set d \<subseteq> fst ` set f" by (rule subset_trans)
  with f show "\<exists>f. map_of (monthly_staff_sales c) m = Some f \<and> fst ` set d \<subseteq> fst ` set f"
    by blast
next
  fix h vs assume "map_of (hourly_volumes a) h = Some vs"
  from entries_keptD(5) [OF ab this] obtain more
    where m: "map_of (hourly_volumes b) h = Some (vs @ more)"
    by blast
  from entries_keptD(5) [OF bc m] obtain more'
    where "map_of (hourly_volumes c) h = Some ((vs @ more) @ more')"
    by blast
  then show "\<exists>more. map_of (hourly_volumes c) h = Some (vs @ more)"
    by simp
qed

lemma never_less_trans:
  assumes ab: "never_less a b" and bc: "never_less b c"
  shows "never_less a c"
  unfolding never_less_def
proof (intro conjI allI impI)
  have "dict_le (daily_volume a) (daily_volume b)" "dict_le (daily_volume b) (daily_volume c)"
    using ab bc by (simp_all add: never_less_def)
  then show "dict_le (daily_volume a) (daily_volume c)" by (rule dict_le_trans)
  have "dict_le (daily_value a) (daily_value b)" "dict_le (daily_value b) (daily_value c)"
    using ab bc by (simp_all add: never_less_def)
  then show "dict_le (daily_value a) (daily_value c)" by (rule dict_le_trans)
  have "dict_le (product_volume a) (product_volume b)"
    "dict_le (product_volume b) (product_volume c)"
    using ab bc by (simp_all add: never_less_def)
  then show "dict_le (product_volume a) (product_volume c)" by (rule dict_le_trans)
next
  fix m d assume "map_of (monthly_staff_sales a) m = Some d"
  with ab obtain e where e: "map_of (monthly_staff_sales b) m = Some e" and de: "dict_le d e"
    unfolding never_less_def by blast
  from bc e obtain f where f: "map_of (monthly_staff_sales c) m = Some f" and ef: "dict_le e f"
    unfolding never_less_def by blast
  from de ef have "dict_le d f" by (rule dict_le_trans)
  with f show "\<exists>f. map_of (monthly_staff_sales c) m = Some f \<and> dict_le d f"
    by blast
qed

lemma update_metrics_Inr:
  assumes "update_metrics L self s = Inr self'"
  obtains qs amt where "quantities_of L s = Some qs" and "py_float L (amount s) = Some amt"
    and "self' = after_sale L self s qs amt"
  using assms by (auto simp: update_metrics_eq split: option.splits)

lemma quantities_of_set:
  assumes "quantities_of L s = Some qs" and "q \<in> set qs"
  shows "\<exists>p\<in>set (products s). py_int L (quantity p) = Some q"
proof -
  have "map (\<lambda>p. py_int L (quantity p)) (products s) = map Some qs"
    using assms(1) unfolding quantities_of_def by (rule those_map_Some)
  then have "Some q \<in> set (map (\<lambda>p. py_int L (quantity p)) (products s))"
    using assms(2) by simp
  then show ?thesis by auto
qed

lemma values_dict_set: "snd ` set (dict_set d k v) \<subseteq> insert v (snd ` set d)"
proof -
  have "set (dict_set d k v) \<subseteq> insert (k, v) (set d)"
    by (induction d) (auto split: if_splits)
  then have "snd ` set (dict_set d k v) \<subseteq> snd ` insert (k, v) (set d)"
    by (rule image_mono)
  then show ?thesis by simp
qed

lemma dict_get_in:
  assumes "snd ` set d \<subseteq> F" and "dflt \<in> F"
  shows "dict_get d k dflt \<in> F"
proof (cases "map_of d k")
  case None
  with assms(2) show ?thesis by (simp add: dict_get_def)
next
  case (Some v)
  then have "(k, v) \<in> set d" by (rule map_of_SomeD)
  then have "v \<in> snd ` set d" by force
  with assms(1) Some show ?thesis by (auto simp: dict_get_def)
qed

lemma adds_upwardD:
  assumes "adds_upward L F"
  shows "0 \<in> F" and "py_float L s = Some x \<Longrightarrow> x \<in> F"
    and "x \<in> F \<Longrightarrow> y \<in> F \<Longrightarrow> float_add L x y \<in> F"
    and "x \<in> F \<Longrightarrow> y \<in> F \<Longrightarrow> 0 \<le> y \<Longrightarrow> x \<le> float_add L x y"
  using assms unfolding adds_upward_def by blast+

lemma update_metrics_grows:
  assumes "update_metrics L self s = Inr self'"
  shows "entries_kept self self'"
    and "adds_upward L F \<Longrightarrow> snd ` set (daily_value self) \<subseteq> F \<Longrightarrow>
           snd ` set (daily_value self') \<subseteq> F"
    and "nonneg_sale L s \<Longrightarrow> adds_upward L F \<Longrightarrow> snd ` set (daily_value self) \<subseteq> F \<Longrightarrow>
           never_less self self'"
proof -
  from assms obtain qs amt where qs: "quantities_of L s = Some qs"
    and amt: "py_float L (amount s) = Some amt" and self': "self' = after_sale L self s qs amt"
    by (rule update_metrics_Inr)
  let ?old = "dict_get (daily_value self) (date_of (timestamp s)) 0"
  show "entries_kept self self'"
    unfolding self' by (rule entries_kept_after_sale)
  have old: "?old \<in> F" and amtF: "amt \<in> F"
    if "adds_upward L F" "snd ` set (daily_value self) \<subseteq> F"
  proof -
    show "?old \<in> F"
      using that(2) adds_upwardD(1) [OF that(1)] by (rule dict_get_in)
    show "amt \<in> F"
      using that(1) amt by (rule adds_upwardD(2))
  qed
  show "snd ` set (daily_value self') \<subseteq> F"
    if "adds_upward L F" "snd ` set (daily_value self) \<subseteq> F"
  proof -
    have new: "float_add L ?old amt \<in> F"
      using that(1) old [OF that] amtF [OF that] by (rule adds_upwardD(3))
    have "snd ` set (dict_set (daily_value self) (date_of (timestamp s))
                      (float_add L ?old amt)) \<subseteq>
          insert (float_add L ?old amt) (snd ` set (daily_value self))"
      by (rule values_dict_set)
    also have "\<dots> \<subseteq> F"
      using new that(2) by simp
    finally show ?thesis
      by (simp add: self')
  qed
  show "never_less self self'"
    if nn: "nonneg_sale L s" and up: "adds_upward L F"
      and vals: "snd ` set (daily_value self) \<subseteq> F"
  proof -
    have q: "\<forall>q\<in>set qs. 0 \<le> q"
      using quantities_of_set [OF qs] nn unfolding nonneg_sale_def by blast
    have "0 \<le> amt"
      using amt nn unfolding nonneg_sale_def by blast
    with up old [OF up vals] amtF [OF up vals] have "?old \<le> float_add L ?old amt"
      by (rule adds_upwardD(4))
    with q show ?thesis
      unfolding self' by (rule never_less_after_sale)
  qed
qed

lemma update_all_grows:
  assumes "update_all L self ss = Inr self'"
  shows "entries_kept self self'"
    and "\<forall>s\<in>set ss. nonneg_sale L s \<Longrightarrow> adds_upward L F \<Longrightarrow>
           snd ` set (daily_value self) \<subseteq> F \<Longrightarrow> never_less self self'"
  using assms
proof (induction ss arbitrary: self)
  case Nil
  {
    case 1 then show ?case by simp
  next
    case 2 then show ?case by simp
  }
next
  case (Cons s ss)
  {
    case 1
    then obtain mid where m: "update_metrics L self s = Inr mid"
      and r: "update_all L mid ss = Inr self'"
      by (auto simp: on_ok_Inr_iff)
    from update_metrics_grows(1) [OF m] Cons.IH(1) [OF r] show ?case
      by (rule entries_kept_trans)
  next
    case 2
    then obtain mid where m: "update_metrics L self s = Inr mid"
      and r: "update_all L mid ss = Inr self'"
      by (auto simp: on_ok_Inr_iff)
    from 2 have nn: "nonneg_sale L s" and rest: "\<forall>s\<in>set ss. nonneg_sale L s"
      by simp_all
    have vals: "snd ` set (daily_value mid) \<subseteq> F"
      using m 2(2) 2(3) by (rule update_metrics_grows(2))
    from update_metrics_grows(3) [OF m nn 2(2) 2(3)] Cons.IH(2) [OF rest 2(2) vals r]
    show ?case
      by (rule never_less_trans)
  }
qed

section \<open>The order of the sales\<close>

lemma map_of_dict_add: "map_of (dict_add d k v) = map_add_at (map_of d) k v"
  by (simp add: dict_add_def map_add_at_def dict_get_def)



lemma map_of_fold_dict_add:
  "map_of (fold (\<lambda>(k, q) pv. dict_add pv k q) kqs d) =
     fold (\<lambda>(k, q) m. map_add_at m k q) kqs (map_of d)"
  by (induction kqs arbitrary: d) (simp_all add: map_of_dict_add split_beta)



lemma inner_maps_after:
  "inner_maps (dict_set mss mon (dict_add (dict_get mss mon []) st v)) =
     inner_add_at (inner_maps mss) mon st v"
proof (cases "map_of mss mon")
  case None
  then show ?thesis
    by (auto simp: inner_maps_def inner_add_at_def dict_get_def map_of_dict_add fun_eq_iff)
next
  case (Some d)
  then show ?thesis
    by (auto simp: inner_maps_def inner_add_at_def dict_get_def map_of_dict_add fun_eq_iff)
qed





section \<open>Maxima and the loops of print_metrics\<close>

lemma fold_max_in: "fold (\<lambda>y m. if f m < f y then y else m) xs x \<in> set (x # xs)"
proof (induction xs arbitrary: x)
  case Nil
  show ?case by simp
next
  case (Cons y ys)
  from Cons.IH [of "if f x < f y then y else x"] show ?case
    by (auto split: if_splits)
qed

lemma fold_max_ge:
  fixes f :: "'a \<Rightarrow> 'b::linorder"
  shows "f x \<le> f (fold (\<lambda>y m. if f m < f y then y else m) xs x)"
proof (induction xs arbitrary: x)
  case Nil
  show ?case by simp
next
  case (Cons y ys)
  from Cons.IH [of "if f x < f y then y else x"] show ?case
    by (auto split: if_splits)
qed

lemma fold_max_greatest:
  fixes f :: "'a \<Rightarrow> 'b::linorder"
  shows "z \<in> set (x # xs) \<Longrightarrow> f z \<le> f (fold (\<lambda>y m. if f m < f y then y else m) xs x)"
proof (induction xs arbitrary: x)
  case Nil
  then show ?case by simp
next
  case (Cons y ys)
  let ?x' = "if f x < f y then y else x"
  have ge: "f ?x' \<le> f (fold (\<lambda>y m. if f m < f y then y else m) ys ?x')"
    by (rule fold_max_ge)
  from Cons.prems consider "z = x" | "z = y" | "z \<in> set ys" by auto
  then show ?case
  proof cases
    case 1
    with ge show ?thesis by (auto split: if_splits)
  next
    case 2
    with ge show ?thesis by (auto split: if_splits)
  next
    case 3
    then have "z \<in> set (?x' # ys)" by simp
    from Cons.IH [OF this] show ?thesis by simp
  qed
qed

lemma py_max_Inr:
  fixes f :: "'a \<Rightarrow> 'b::linorder"
  assumes "py_max f xs = Inr x"
  shows "x \<in> set xs" and "\<forall>y\<in>set xs. f y \<le> f x"
proof -
  from assms obtain a as where xs: "xs = a # as"
    by (cases xs) simp_all
  with assms have x: "x = fold (\<lambda>y m. if f m < f y then y else m) as a"
    by simp
  show "x \<in> set xs"
    unfolding xs x by (rule fold_max_in)
  show "\<forall>y\<in>set xs. f y \<le> f x"
    unfolding xs x using fold_max_greatest [of _ a as f] by blast
qed

lemma fold_max_first:
  fixes f :: "'a \<Rightarrow> 'b::linorder"
  shows "\<exists>pre post. x # xs = pre @ fold (\<lambda>y m. if f m < f y then y else m) xs x # post \<and>
           (\<forall>y\<in>set pre. f y < f (fold (\<lambda>y m. if f m < f y then y else m) xs x)) \<and>
           (\<forall>y\<in>set post. f y \<le> f (fold (\<lambda>y m. if f m < f y then y else m) xs x))"
proof (induction xs arbitrary: x)
  case Nil
  have "[x] = [] @ x # [] \<and> (\<forall>y\<in>set []. f y < f x) \<and> (\<forall>y\<in>set []. f y \<le> f x)"
    by simp
  then show ?case
    by (simp only: fold.simps id_apply) blast
next
  case (Cons y ys)
  let ?g = "\<lambda>y m. if f m < f y then y else m"
  show ?case
  proof (cases "f x < f y")
    case True
    let ?z = "fold ?g ys y"
    from Cons.IH [of y] obtain pre post where d: "y # ys = pre @ ?z # post"
      and lt: "\<forall>w\<in>set pre. f w < f ?z" and le: "\<forall>w\<in>set post. f w \<le> f ?z"
      by blast
    have "f y \<le> f ?z" by (rule fold_max_ge)
    with True have "f x < f ?z" by simp
    with lt have lt': "\<forall>w\<in>set (x # pre). f w < f ?z" by simp
    have d': "x # y # ys = (x # pre) @ ?z # post"
      using d by simp
    have z: "fold ?g (y # ys) x = ?z"
      using True by simp
    show ?thesis
      unfolding z using d' lt' le by blast
  next
    case False
    let ?z = "fold ?g ys x"
    have z: "fold ?g (y # ys) x = ?z"
      using False by simp
    from Cons.IH [of x] obtain pre post where d: "x # ys = pre @ ?z # post"
      and lt: "\<forall>w\<in>set pre. f w < f ?z" and le: "\<forall>w\<in>set post. f w \<le> f ?z"
      by blast
    show ?thesis
    proof (cases pre)
      case Nil
      from d have e: "x # ys = ?z # post"
        unfolding Nil append_Nil .
      from e have zx: "?z = x"
        by (rule list.inject [THEN iffD1, THEN conjunct1, symmetric])
      from e have post: "post = ys"
        by (rule list.inject [THEN iffD1, THEN conjunct2, symmetric])
      have "x # y # ys = [] @ ?z # (y # ys)"
        using zx by simp
      moreover have "\<forall>w\<in>set (y # ys). f w \<le> f ?z"
        using le False unfolding post zx by auto
      ultimately show ?thesis
        unfolding z by (intro exI [of _ "[]"] exI [of _ "y # ys"]) simp
    next
      case (Cons p pre')
      from d have e: "x # ys = p # (pre' @ ?z # post)"
        unfolding Cons append_Cons .
      from e have px: "p = x"
        by (rule list.inject [THEN iffD1, THEN conjunct1, symmetric])
      from e have ys: "ys = pre' @ ?z # post"
        by (rule list.inject [THEN iffD1, THEN conjunct2])
      from lt have "f x < f ?z" by (simp add: Cons px)
      with False have "f y < f ?z" by simp
      with lt have lt': "\<forall>w\<in>set (x # y # pre'). f w < f ?z"
        by (simp add: Cons px)
      have "x # y # ys = (x # y # pre') @ ?z # post"
        using ys by simp
      with lt' le show ?thesis
        unfolding z by blast
    qed
  qed
qed

lemma py_max_first:
  fixes f :: "'a \<Rightarrow> 'b::linorder"
  assumes "py_max f xs = Inr x"
  shows "\<exists>pre post. xs = pre @ x # post \<and> (\<forall>y\<in>set pre. f y < f x) \<and> (\<forall>y\<in>set post. f y \<le> f x)"
proof -
  from assms obtain a as where xs: "xs = a # as"
    by (cases xs) simp_all
  with assms have x: "x = fold (\<lambda>y m. if f m < f y then y else m) as a"
    by simp
  show ?thesis
    unfolding xs x by (rule fold_max_first)
qed

lemma py_max_succeeds: "xs \<noteq> [] \<Longrightarrow> \<exists>x. py_max f xs = Inr x"
  by (cases xs) simp_all

lemma py_max_error: "py_max f xs = Inl e \<Longrightarrow> e = ValueError \<and> xs = []"
  by (cases xs) simp_all

lemma dict_set_new: "k \<notin> fst ` set d \<Longrightarrow> dict_set d k v = d @ [(k, v)]"
  by (induction d) auto

lemma monthly_top_staff_loop_Inr:
  assumes "distinct (map fst tops @ map fst rest)"
    and "\<forall>(mon, items)\<in>set rest. items \<noteq> []"
  shows "\<exists>bs. monthly_top_staff_loop tops rest = Inr (tops @ bs) \<and>
           list_all2 (\<lambda>(mon, items) (mon', best). mon' = mon \<and> py_max snd items = Inr best) rest bs"
  using assms
proof (induction rest arbitrary: tops)
  case Nil
  show ?case by simp
next
  case (Cons r rest)
  obtain mon items where r: "r = (mon, items)" by (cases r)
  from Cons.prems(2) have "items \<noteq> []" by (simp add: r)
  then obtain best where best: "py_max snd items = Inr best"
    using py_max_succeeds by blast
  from Cons.prems(1) have new: "mon \<notin> fst ` set tops"
    by (auto simp: r)
  have d: "distinct (map fst (tops @ [(mon, best)]) @ map fst rest)"
    using Cons.prems(1) by (simp add: r)
  have ne: "\<forall>(mon, items)\<in>set rest. items \<noteq> []"
    using Cons.prems(2) by simp
  from Cons.IH [OF d ne] obtain bs
    where bs: "monthly_top_staff_loop (tops @ [(mon, best)]) rest = Inr ((tops @ [(mon, best)]) @ bs)"
      and all: "list_all2 (\<lambda>(mon, items) (mon', best). mon' = mon \<and> py_max snd items = Inr best) rest bs"
    by blast
  have "monthly_top_staff_loop tops (r # rest) = Inr (tops @ (mon, best) # bs)"
    by (simp add: r best dict_set_new [OF new] bs)
  moreover have "list_all2 (\<lambda>(mon, items) (mon', best). mon' = mon \<and> py_max snd items = Inr best)
      (r # rest) ((mon, best) # bs)"
    using all best by (simp add: r)
  ultimately show ?case by blast
qed

lemma average_not_Nil:
  "vs \<noteq> [] \<Longrightarrow>
     average L vs = or_raise OverflowError (true_div L (sum_list vs) (int (length vs)))"
  by (simp add: average_def truediv_def)

lemma avg_hourly_volume_loop_eq:
  assumes "distinct (map fst avg @ map fst rest)"
    and "\<forall>(hr, vs)\<in>set rest. vs \<noteq> []"
  shows "avg_hourly_volume_loop L avg rest =
           (if \<forall>(hr, vs)\<in>set rest. true_div L (sum_list vs) (int (length vs)) \<noteq> None
            then Inr (avg @ map (\<lambda>(hr, vs). (hr, the (true_div L (sum_list vs) (int (length vs)))))
                             rest)
            else Inl OverflowError)"
  using assms
proof (induction rest arbitrary: avg)
  case Nil
  show ?case by simp
next
  case (Cons r rest)
  obtain hr vs where r: "r = (hr, vs)" by (cases r)
  from Cons.prems(2) have vs: "vs \<noteq> []" by (simp add: r)
  from Cons.prems(1) have new: "hr \<notin> fst ` set avg"
    by (auto simp: r)
  have ne: "\<forall>(hr, vs)\<in>set rest. vs \<noteq> []"
    using Cons.prems(2) by simp
  show ?case
  proof (cases "true_div L (sum_list vs) (int (length vs))")
    case None
    then show ?thesis
      by (simp add: r average_not_Nil [OF vs])
  next
    case (Some q)
    have d: "distinct (map fst (avg @ [(hr, q)]) @ map fst rest)"
      using Cons.prems(1) by (simp add: r)
    show ?thesis
      by (simp add: r average_not_Nil [OF vs] Some dict_set_new [OF new] Cons.IH [OF d ne])
  qed
qed

section \<open>Invariants of the analyser\<close>

lemma dict_set_not_Nil [simp]: "dict_set d k v \<noteq> []"
  by (cases d) (auto split: if_splits)

lemma dict_add_not_Nil [simp]: "dict_add d k v \<noteq> []"
  by (simp add: dict_add_def)

lemma set_dict_set_subset: "set (dict_set d k v) \<subseteq> insert (k, v) (set d)"
  by (induction d) (auto split: if_splits)

lemma distinct_dict_add [simp]: "distinct (map fst d) \<Longrightarrow> distinct (map fst (dict_add d k v))"
  by (simp add: dict_add_def)

lemma distinct_fold_dict_add:
  "distinct (map fst d) \<Longrightarrow> distinct (map fst (fold (\<lambda>(k, q) pv. dict_add pv k q) kqs d))"
  by (induction kqs arbitrary: d) (simp_all add: split_beta)

lemma ball_dict_set:
  assumes "\<forall>(k, v)\<in>set d. P v" and "P v'"
  shows "\<forall>(k, v)\<in>set (dict_set d k' v'). P v"
  using assms by (induction d) (auto split: if_splits)

lemma wf_analyserD:
  assumes "wf_analyser a"
  shows "distinct (map fst (daily_volume a))" and "distinct (map fst (daily_value a))"
    and "distinct (map fst (product_volume a))" and "distinct (map fst (monthly_staff_sales a))"
    and "distinct (map fst (hourly_volumes a))"
    and "\<forall>(mon, items)\<in>set (monthly_staff_sales a). items \<noteq> [] \<and> distinct (map fst items)"
    and "\<forall>(hr, vs)\<in>set (hourly_volumes a). vs \<noteq> []"
  using assms unfolding wf_analyser_def by simp_all

lemma wf_init: "wf_analyser init"
  by (simp add: wf_analyser_def init_def)

lemma wf_after_sale:
  assumes "wf_analyser a"
  shows "wf_analyser (after_sale L a s qs amt)"
  unfolding wf_analyser_def
proof (intro conjI)
  show "distinct (map fst (daily_volume (after_sale L a s qs amt)))"
    using wf_analyserD(1) [OF assms] by simp
  show "distinct (map fst (daily_value (after_sale L a s qs amt)))"
    using wf_analyserD(2) [OF assms] by simp
  show "distinct (map fst (product_volume (after_sale L a s qs amt)))"
    using wf_analyserD(3) [OF assms] by (simp add: distinct_fold_dict_add)
  show "distinct (map fst (monthly_staff_sales (after_sale L a s qs amt)))"
    using wf_analyserD(4) [OF assms] by simp
  show "distinct (map fst (hourly_volumes (after_sale L a s qs amt)))"
    using wf_analyserD(5) [OF assms] by simp
next
  let ?mon = "strftime_Ym (timestamp s)"
  let ?old = "dict_get (monthly_staff_sales a) ?mon []"
  have "distinct (map fst ?old)"
  proof (cases "map_of (monthly_staff_sales a) ?mon")
    case None
    then show ?thesis by (simp add: dict_get_def)
  next
    case (Some items)
    then have "(?mon, items) \<in> set (monthly_staff_sales a)" by (rule map_of_SomeD)
    with wf_analyserD(6) [OF assms] have "distinct (map fst items)" by blast
    with Some show ?thesis by (simp add: dict_get_def)
  qed
  then have new: "dict_add ?old (staff s) (sum_list qs) \<noteq> [] \<and>
      distinct (map fst (dict_add ?old (staff s) (sum_list qs)))"
    by simp
  show "\<forall>(mon, items)\<in>set (monthly_staff_sales (after_sale L a s qs amt)).
          items \<noteq> [] \<and> distinct (map fst items)"
    unfolding after_sale_fields
    using wf_analyserD(6) [OF assms] new by (rule ball_dict_set)
next
  have "dict_get (hourly_volumes a) (hour (timestamp s)) [] @ [sum_list qs] \<noteq> []"
    by simp
  with wf_analyserD(7) [OF assms]
  show "\<forall>(hr, vs)\<in>set (hourly_volumes (after_sale L a s qs amt)). vs \<noteq> []"
    unfolding after_sale_fields by (rule ball_dict_set)
qed

lemma wf_update_metrics:
  assumes "update_metrics L a s = Inr b" and "wf_analyser a"
  shows "wf_analyser b"
proof -
  from assms(1) obtain qs amt where "b = after_sale L a s qs amt"
    by (rule update_metrics_Inr)
  with assms(2) show ?thesis by (simp add: wf_after_sale)
qed

lemma wf_update_all:
  assumes "update_all L a ss = Inr b" and "wf_analyser a"
  shows "wf_analyser b"
  using assms
proof (induction ss arbitrary: a)
  case Nil
  then show ?case by simp
next
  case (Cons s ss)
  from Cons.prems(1) obtain mid where m: "update_metrics L a s = Inr mid"
    and r: "update_all L mid ss = Inr b"
    by (auto simp: on_ok_Inr_iff)
  from m Cons.prems(2) have "wf_analyser mid" by (rule wf_update_metrics)
  with r show ?case by (rule Cons.IH)
qed

lemma quantities_of_length:
  assumes "quantities_of L s = Some qs"
  shows "length qs = length (products s)"
proof -
  have "map (\<lambda>p. py_int L (quantity p)) (products s) = map Some qs"
    using assms unfolding quantities_of_def by (rule those_map_Some)
  then have "length (map (\<lambda>p. py_int L (quantity p)) (products s)) = length (map Some qs)"
    by simp
  then show ?thesis by simp
qed

lemma update_metrics_keys:
  assumes "update_metrics L a s = Inr b"
  shows "fst ` set (daily_volume b) = insert (date_of (timestamp s)) (fst ` set (daily_volume a))"
    and "fst ` set (daily_value b) = insert (date_of (timestamp s)) (fst ` set (daily_value a))"
    and "fst ` set (product_volume b) =
           fst ` set (product_volume a) \<union> product_id ` set (products s)"
    and "fst ` set (monthly_staff_sales b) =
           insert (strftime_Ym (timestamp s)) (fst ` set (monthly_staff_sales a))"
    and "fst ` set (hourly_volumes b) =
           insert (hour (timestamp s)) (fst ` set (hourly_volumes a))"
proof -
  from assms obtain qs amt where qs: "quantities_of L s = Some qs"
    and b: "b = after_sale L a s qs amt"
    by (rule update_metrics_Inr)
  have "length (map product_id (products s)) = length qs"
    using quantities_of_length [OF qs] by simp
  then have "map fst (zip (map product_id (products s)) qs) = map product_id (products s)"
    by (rule map_fst_zip)
  then have "set (map fst (zip (map product_id (products s)) qs)) =
      set (map product_id (products s))"
    by simp
  then have z: "fst ` set (zip (map product_id (products s)) qs) = product_id ` set (products s)"
    by simp
  show "fst ` set (product_volume b) =
           fst ` set (product_volume a) \<union> product_id ` set (products s)"
    by (simp add: b keys_fold_dict_add z)
  show "fst ` set (daily_volume b) = insert (date_of (timestamp s)) (fst ` set (daily_volume a))"
    by (simp add: b)
  show "fst ` set (daily_value b) = insert (date_of (timestamp s)) (fst ` set (daily_value a))"
    by (simp add: b)
  show "fst ` set (monthly_staff_sales b) =
           insert (strftime_Ym (timestamp s)) (fst ` set (monthly_staff_sales a))"
    by (simp add: b)
  show "fst ` set (hourly_volumes b) =
           insert (hour (timestamp s)) (fst ` set (hourly_volumes a))"
    by (simp add: b)
qed

lemma update_all_keys:
  assumes "update_all L a ss = Inr b"
  shows "fst ` set (daily_volume b) =
           fst ` set (daily_volume a) \<union> (\<lambda>s. date_of (timestamp s)) ` set ss"
    and "fst ` set (daily_value b) =
           fst ` set (daily_value a) \<union> (\<lambda>s. date_of (timestamp s)) ` set ss"
    and "fst ` set (product_volume b) =
           fst ` set (product_volume a) \<union> (\<Union>s\<in>set ss. product_id ` set (products s))"
    and "fst ` set (monthly_staff_sales b) =
           fst ` set (monthly_staff_sales a) \<union> (\<lambda>s. strftime_Ym (timestamp s)) ` set ss"
    and "fst ` set (hourly_volumes b) =
           fst ` set (hourly_volumes a) \<union> (\<lambda>s. hour (timestamp s)) ` set ss"
  using assms
proof (induction ss arbitrary: a)
  case Nil
  {
    case 1 then show ?case by simp
  next
    case 2 then show ?case by simp
  next
    case 3 then show ?case by simp
  next
    case 4 then show ?case by simp
  next
    case 5 then show ?case by simp
  }
next
  case (Cons s ss)
  {
    case 1
    then obtain mid where m: "update_metrics L a s = Inr mid" and r: "update_all L mid ss = Inr b"
      by (auto simp: on_ok_Inr_iff)
    show ?case
      unfolding Cons.IH(1) [OF r] update_metrics_keys(1) [OF m] by simp
  next
    case 2
    then obtain mid where m: "update_metrics L a s = Inr mid" and r: "update_all L mid ss = Inr b"
      by (auto simp: on_ok_Inr_iff)
    show ?case
      unfolding Cons.IH(2) [OF r] update_metrics_keys(2) [OF m] by simp
  next
    case 3
    then obtain mid where m: "update_metrics L a s = Inr mid" and r: "update_all L mid ss = Inr b"
      by (auto simp: on_ok_Inr_iff)
    show ?case
      unfolding Cons.IH(3) [OF r] update_metrics_keys(3) [OF m] by (simp add: Un_assoc)
  next
    case 4
    then obtain mid where m: "update_metrics L a s = Inr mid" and r: "update_all L mid ss = Inr b"
      by (auto simp: on_ok_Inr_iff)
    show ?case
      unfolding Cons.IH(4) [OF r] update_metrics_keys(4) [OF m] by simp
  next
    case 5
    then obtain mid where m: "update_metrics L a s = Inr mid" and r: "update_all L mid ss = Inr b"
      by (auto simp: on_ok_Inr_iff)
    show ?case
      unfolding Cons.IH(5) [OF r] update_metrics_keys(5) [OF m] by simp
  }
qed

lemma get_transactions_loop_Inr:
  assumes "get_transactions_loop L a ts lines = Inr b"
  shows "\<exists>ss b0. list_all2 (\<lambda>line s. parse_line L line = Inr s) lines ss \<and>
           update_all L a ss = Inr b0 \<and> b = b0\<lparr>transactions := ts @ ss\<rparr>"
  using assms
proof (induction lines arbitrary: a ts)
  case Nil
  then have "b = a\<lparr>transactions := ts @ []\<rparr>" by simp
  then show ?case by fastforce
next
  case (Cons line lines)
  from Cons.prems obtain s mid where p: "parse_line L line = Inr s"
    and m: "update_metrics L a s = Inr mid"
    and r: "get_transactions_loop L mid (ts @ [s]) lines = Inr b"
    by (auto simp: on_ok_Inr_iff)
  from Cons.IH [OF r] obtain ss b0
    where all: "list_all2 (\<lambda>line s. parse_line L line = Inr s) lines ss"
      and u: "update_all L mid ss = Inr b0" and b: "b = b0\<lparr>transactions := (ts @ [s]) @ ss\<rparr>"
    by blast
  have "list_all2 (\<lambda>line s. parse_line L line = Inr s) (line # lines) (s # ss)"
    using p all by simp
  moreover have "update_all L a (s # ss) = Inr b0"
    using m u by simp
  moreover have "b = b0\<lparr>transactions := ts @ s # ss\<rparr>"
    using b by simp
  ultimately show ?case by blast
qed

lemma get_transactions_Inr:
  assumes "get_transactions L init lines = Inr b"
  obtains b0 where "list_all2 (\<lambda>line s. parse_line L line = Inr s) lines (transactions b)"
    and "update_all L init (transactions b) = Inr b0"
    and "b = b0\<lparr>transactions := transactions b\<rparr>"
proof -
  from assms have "get_transactions_loop L init [] lines = Inr b"
    by (simp add: get_transactions_def)
  from get_transactions_loop_Inr [OF this] obtain ss b0
    where all: "list_all2 (\<lambda>line s. parse_line L line = Inr s) lines ss"
      and u: "update_all L init ss = Inr b0" and b: "b = b0\<lparr>transactions := [] @ ss\<rparr>"
    by blast
  from b have t: "transactions b = ss" by simp
  show thesis
  proof (rule that)
    show "list_all2 (\<lambda>line s. parse_line L line = Inr s) lines (transactions b)"
      using all t by simp
    show "update_all L init (transactions b) = Inr b0"
      using u t by simp
    show "b = b0\<lparr>transactions := transactions b\<rparr>"
      using b t by simp
  qed
qed

lemma parse_line_products_not_Nil:
  assumes "parse_line L line = Inr s"
  shows "products s \<noteq> []"
proof -
  from assms obtain r2 ps where fp: "format_products r2 = Inr ps" and ps: "products s = ps"
    unfolding parse_line_def Sale_init_def by (auto simp: on_ok_Inr_iff)
  from fp have "ps = map (\<lambda>t. \<lparr>product_id = str_split CHR '':'' t ! 0,
                                  quantity = str_split CHR '':'' t ! 1\<rparr>)
                      (str_split CHR ''|'' (butlast (tl r2)))"
    unfolding format_products_def format_products_loop_eq by (simp split: if_splits)
  then have "ps \<noteq> []" by simp
  with ps show ?thesis by simp
qed

lemma wf_analyser_transactions [simp]: "wf_analyser (a\<lparr>transactions := ts\<rparr>) = wf_analyser a"
  by (simp add: wf_analyser_def)

lemma compute_metrics_transactions [simp]:
  "compute_metrics L (a\<lparr>transactions := ts\<rparr>) = compute_metrics L a"
  by (simp add: compute_metrics_def)

lemma ingested_wf:
  assumes "get_transactions L init lines = Inr a"
  shows "wf_analyser a"
    and "fst ` set (monthly_staff_sales a) = (\<lambda>s. strftime_Ym (timestamp s)) ` set (transactions a)"
    and "fst ` set (hourly_volumes a) = (\<lambda>s. hour (timestamp s)) ` set (transactions a)"
proof -
  from assms obtain a0 where u: "update_all L init (transactions a) = Inr a0"
    and a: "a = a0\<lparr>transactions := transactions a\<rparr>"
    by (rule get_transactions_Inr)
  have "wf_analyser a0"
    using u wf_init by (rule wf_update_all)
  then show "wf_analyser a"
    by (subst a) simp
  have "fst ` set (monthly_staff_sales a0) =
      (\<lambda>s. strftime_Ym (timestamp s)) ` set (transactions a)"
    using update_all_keys(4) [OF u] by (simp add: init_def)
  then show "fst ` set (monthly_staff_sales a) =
      (\<lambda>s. strftime_Ym (timestamp s)) ` set (transactions a)"
    by (subst (1) a) simp
  have "fst ` set (hourly_volumes a0) = (\<lambda>s. hour (timestamp s)) ` set (transactions a)"
    using update_all_keys(5) [OF u] by (simp add: init_def)
  then show "fst ` set (hourly_volumes a) = (\<lambda>s. hour (timestamp s)) ` set (transactions a)"
    by (subst (1) a) simp
qed

lemma ingested_not_empty:
  assumes "get_transactions L init lines = Inr a" and "lines \<noteq> []"
  shows "daily_volume a \<noteq> []" and "daily_value a \<noteq> []" and "product_volume a \<noteq> []"
    and "monthly_staff_sales a \<noteq> []" and "hourly_volumes a \<noteq> []"
proof -
  from assms(1) obtain a0
    where all: "list_all2 (\<lambda>line s. parse_line L line = Inr s) lines (transactions a)"
      and u: "update_all L init (transactions a) = Inr a0"
      and a: "a = a0\<lparr>transactions := transactions a\<rparr>"
    by (rule get_transactions_Inr)
  from all assms(2) obtain s ss where t: "transactions a = s # ss"
    by (cases "transactions a") auto
  from all obtain line where "parse_line L line = Inr s"
    unfolding t by (auto simp: list_all2_Cons2)
  then have "products s \<noteq> []" by (rule parse_line_products_not_Nil)
  then have ps: "product_id ` set (products s) \<noteq> {}" by simp
  have "fst ` set (daily_volume a0) \<noteq> {}"
    unfolding update_all_keys(1) [OF u] t by simp
  then show "daily_volume a \<noteq> []"
    by (subst a) simp
  have "fst ` set (daily_value a0) \<noteq> {}"
    unfolding update_all_keys(2) [OF u] t by simp
  then show "daily_value a \<noteq> []"
    by (subst a) simp
  have "fst ` set (product_volume a0) \<noteq> {}"
    unfolding update_all_keys(3) [OF u] t using ps by simp
  then show "product_volume a \<noteq> []"
    by (subst a) simp
  have "fst ` set (monthly_staff_sales a0) \<noteq> {}"
    unfolding update_all_keys(4) [OF u] t by simp
  then show "monthly_staff_sales a \<noteq> []"
    by (subst a) simp
  have "fst ` set (hourly_volumes a0) \<noteq> {}"
    unfolding update_all_keys(5) [OF u] t by simp
  then show "hourly_volumes a \<noteq> []"
    by (subst a) simp
qed

text \<open>
  On an analyser built by the updates, computing the metrics either raises
  \<open>OverflowError\<close>, at an hour whose quotient is beyond the floats, or returns.
\<close>

lemma compute_metrics_cases:
  assumes "wf_analyser a" and "daily_volume a \<noteq> []" and "daily_value a \<noteq> []"
    and "product_volume a \<noteq> []" and "hourly_volumes a \<noteq> []"
  shows "(compute_metrics L a = Inl OverflowError \<and>
          (\<exists>(hr, vs)\<in>set (hourly_volumes a). true_div L (sum_list vs) (int (length vs)) = None)) \<or>
         (\<exists>m. compute_metrics L a = Inr m \<and>
           py_max snd (daily_volume a) = Inr (highest_volume_day m) \<and>
           py_max snd (daily_value a) = Inr (highest_value_day m) \<and>
           py_max snd (product_volume a) = Inr (most_sold_product m) \<and>
           list_all2 (\<lambda>(mon, items) (mon', best). mon' = mon \<and> py_max snd items = Inr best)
             (monthly_staff_sales a) (monthly_top_staff m) \<and>
           month_rows m = sort_key fst (monthly_top_staff m) \<and>
           (\<forall>(hr, vs)\<in>set (hourly_volumes a).
              true_div L (sum_list vs) (int (length vs)) \<noteq> None) \<and>
           py_max snd (map (\<lambda>(hr, vs). (hr, the (true_div L (sum_list vs) (int (length vs)))))
                        (hourly_volumes a)) = Inr (peak_hour m))"
proof -
  obtain hvol where hvol: "py_max snd (daily_volume a) = Inr hvol"
    using py_max_succeeds [OF assms(2)] by blast
  obtain hval where hval: "py_max snd (daily_value a) = Inr hval"
    using py_max_succeeds [OF assms(3)] by blast
  obtain prod where prod: "py_max snd (product_volume a) = Inr prod"
    using py_max_succeeds [OF assms(4)] by blast
  have "distinct (map fst [] @ map fst (monthly_staff_sales a))"
    using wf_analyserD(4) [OF assms(1)] by simp
  moreover have "\<forall>(mon, items)\<in>set (monthly_staff_sales a). items \<noteq> []"
    using wf_analyserD(6) [OF assms(1)] by blast
  ultimately have "\<exists>bs. monthly_top_staff_loop [] (monthly_staff_sales a) = Inr ([] @ bs) \<and>
      list_all2 (\<lambda>(mon, items) (mon', best). mon' = mon \<and> py_max snd items = Inr best)
        (monthly_staff_sales a) bs"
    by (rule monthly_top_staff_loop_Inr)
  then obtain tops where tops: "monthly_top_staff_loop [] (monthly_staff_sales a) = Inr tops"
    and all: "list_all2 (\<lambda>(mon, items) (mon', best). mon' = mon \<and> py_max snd items = Inr best)
             (monthly_staff_sales a) tops"
    by (elim exE conjE) simp
  let ?avg = "map (\<lambda>(hr, vs). (hr, the (true_div L (sum_list vs) (int (length vs)))))
                (hourly_volumes a)"
  have "distinct (map fst [] @ map fst (hourly_volumes a))"
    using wf_analyserD(5) [OF assms(1)] by simp
  then have loop: "avg_hourly_volume_loop L [] (hourly_volumes a) =
      (if \<forall>(hr, vs)\<in>set (hourly_volumes a). true_div L (sum_list vs) (int (length vs)) \<noteq> None
       then Inr ([] @ ?avg) else Inl OverflowError)"
    using wf_analyserD(7) [OF assms(1)] by (rule avg_hourly_volume_loop_eq)
  show ?thesis
  proof (cases "\<forall>(hr, vs)\<in>set (hourly_volumes a).
      true_div L (sum_list vs) (int (length vs)) \<noteq> None")
    case False
    with loop have "avg_hourly_volume_loop L [] (hourly_volumes a) = Inl OverflowError"
      by simp
    then have "compute_metrics L a = Inl OverflowError"
      by (simp only: compute_metrics_def hvol hval prod tops on_ok_simps)
    moreover from False
    have "\<exists>(hr, vs)\<in>set (hourly_volumes a). true_div L (sum_list vs) (int (length vs)) = None"
      by blast
    ultimately show ?thesis by blast
  next
    case True
    with loop have avg: "avg_hourly_volume_loop L [] (hourly_volumes a) = Inr ?avg"
      by simp
    have ne: "?avg \<noteq> []"
      using assms(5) by simp
    obtain peak where peak: "py_max snd ?avg = Inr peak"
      using py_max_succeeds [OF ne, of snd] by (elim exE)
    let ?m = "\<lparr>highest_volume_day = hvol, highest_value_day = hval, most_sold_product = prod,
               monthly_top_staff = tops, month_rows = sort_key fst tops, peak_hour = peak\<rparr>"
    have cm: "compute_metrics L a = Inr ?m"
      by (simp only: compute_metrics_def hvol hval prod tops avg peak on_ok_simps)
    have "compute_metrics L a = Inr ?m \<and>
           py_max snd (daily_volume a) = Inr (highest_volume_day ?m) \<and>
           py_max snd (daily_value a) = Inr (highest_value_day ?m) \<and>
           py_max snd (product_volume a) = Inr (most_sold_product ?m) \<and>
           list_all2 (\<lambda>(mon, items) (mon', best). mon' = mon \<and> py_max snd items = Inr best)
             (monthly_staff_sales a) (monthly_top_staff ?m) \<and>
           month_rows ?m = sort_key fst (monthly_top_staff ?m) \<and>
           (\<forall>(hr, vs)\<in>set (hourly_volumes a).
              true_div L (sum_list vs) (int (length vs)) \<noteq> None) \<and>
           py_max snd ?avg = Inr (peak_hour ?m)"
      using cm hvol hval prod all True peak by simp
    then show ?thesis by blast
  qed
qed

section \<open>The report and its month lines\<close>

lemma month_label_error:
  assumes "month_label L mon = Inl e"
  shows "e = ValueError \<or> e = IndexError"
proof (cases "py_int L (last_two mon)")
  case None
  with assms show ?thesis by (simp add: month_label_def)
next
  case (Some i)
  with assms have "list_index month_name i = Inl e"
    by (simp add: month_label_def)
  then show ?thesis
    by (simp add: list_index_def split: if_splits)
qed

lemma print_month_lines_error:
  assumes "print_month_lines L out rows = Inl e"
  shows "e = ValueError \<or> e = IndexError"
  using assms
proof (induction rows arbitrary: out)
  case Nil
  then show ?case by simp
next
  case (Cons r rows)
  obtain mon best where r: "r = (mon, best)" by (cases r)
  show ?case
  proof (cases "month_label L mon")
    case (Inl e')
    with Cons.prems have "e' = e" by (simp add: r)
    with Inl show ?thesis using month_label_error by blast
  next
    case (Inr label)
    with Cons.prems have "print_month_lines L (out @ [(label, fst best, snd best)]) rows = Inl e"
      by (simp add: r)
    then show ?thesis by (rule Cons.IH)
  qed
qed

lemma report_metrics_Inr:
  assumes "report_metrics L a = Inr m"
  obtains m0 ls where "compute_metrics L a = Inr m0" and "print_month_lines L [] (month_rows m0) = Inr ls"
    and "m = report_of m0 ls"
  using assms unfolding report_metrics_def by (auto simp: on_ok_Inr_iff)

lemma report_of_fields [simp]:
  "highest_volume_day (report_of m ls) = highest_volume_day m"
  "highest_value_day (report_of m ls) = highest_value_day m"
  "most_sold_product (report_of m ls) = most_sold_product m"
  "monthly_top_staff (report_of m ls) = monthly_top_staff m"
  "month_rows (report_of m ls) = month_rows m"
  "peak_hour (report_of m ls) = peak_hour m"
  "month_lines (report_of m ls) = ls"
  by (simp_all add: report_of_def)

lemma report_metrics_error:
  assumes "report_metrics L a = Inl e"
  shows "compute_metrics L a = Inl e \<or> e = ValueError \<or> e = IndexError"
proof (cases "compute_metrics L a")
  case (Inl e')
  with assms show ?thesis by (simp add: report_metrics_def)
next
  case (Inr m)
  show ?thesis
  proof (cases "print_month_lines L [] (month_rows m)")
    case (Inl e')
    with Inr assms have "e' = e" by (simp add: report_metrics_def)
    with Inl print_month_lines_error show ?thesis by blast
  next
    case (Inr ls)
    with \<open>compute_metrics L a = Inr m\<close> assms show ?thesis
      by (simp add: report_metrics_def)
  qed
qed

lemma compute_metrics_init: "compute_metrics L init = Inl ValueError"
  by (simp add: compute_metrics_def init_def)

lemma map_eq_middle:
  assumes "map g xs = pre' @ p # post'"
  obtains pre x post where "xs = pre @ x # post" and "map g pre = pre'" and "g x = p"
    and "map g post = post'"
  using assms by (auto simp: map_eq_append_conv map_eq_Cons_conv)

section \<open>Month keys in string order\<close>

lemma of_char_digit_char: "(of_char (digit_char n) :: nat) = 48 + n mod 10"
proof -
  have "n mod 10 < 10" by simp
  then have "48 + n mod 10 < 256" by linarith
  then have "(48 + n mod 10) mod 256 = 48 + n mod 10"
    by (rule mod_less)
  then show ?thesis
    by (simp add: digit_char_def)
qed

lemma digit_char_less: "digit_char a < digit_char b \<longleftrightarrow> a mod 10 < b mod 10"
  by (simp add: less_char_def of_char_digit_char)

lemma digit_char_eq: "digit_char a = digit_char b \<longleftrightarrow> a mod 10 = b mod 10"
proof -
  have "digit_char a = digit_char b \<longleftrightarrow>
      (of_char (digit_char a) :: nat) = of_char (digit_char b)"
    by (simp only: of_char_eq_iff)
  also have "\<dots> \<longleftrightarrow> a mod 10 = b mod 10"
    by (simp only: of_char_digit_char add_left_cancel)
  finally show ?thesis .
qed

lemma lex_two_digits:
  fixes q r q' r' :: nat
  assumes "r < 10" and "r' < 10"
  shows "10 * q + r < 10 * q' + r' \<longleftrightarrow> q < q' \<or> (q = q' \<and> r < r')"
  using assms by auto

lemma less_by_last_digit:
  "(n::nat) < n' \<longleftrightarrow> n div 10 < n' div 10 \<or> (n div 10 = n' div 10 \<and> n mod 10 < n' mod 10)"
proof -
  have "n < n' \<longleftrightarrow> 10 * (n div 10) + n mod 10 < 10 * (n' div 10) + n' mod 10"
    by simp
  also have "\<dots> \<longleftrightarrow> n div 10 < n' div 10 \<or> (n div 10 = n' div 10 \<and> n mod 10 < n' mod 10)"
    by (rule lex_two_digits) simp_all
  finally show ?thesis .
qed

lemma eq_by_last_digit:
  "(n::nat) = n' \<longleftrightarrow> n div 10 = n' div 10 \<and> n mod 10 = n' mod 10"
proof
  assume "n = n'"
  then show "n div 10 = n' div 10 \<and> n mod 10 = n' mod 10" by simp
next
  assume eq: "n div 10 = n' div 10 \<and> n mod 10 = n' mod 10"
  have "n = 10 * (n div 10) + n mod 10" by simp
  also have "\<dots> = 10 * (n' div 10) + n' mod 10" using eq by simp
  also have "\<dots> = n'" by simp
  finally show "n = n'" .
qed

lemma less_by_four_digits:
  fixes y y' :: nat
  assumes "y < 10000" and "y' < 10000"
  shows "y < y' \<longleftrightarrow>
     (y div 1000) mod 10 < (y' div 1000) mod 10 \<or>
     ((y div 1000) mod 10 = (y' div 1000) mod 10 \<and>
      ((y div 100) mod 10 < (y' div 100) mod 10 \<or>
       ((y div 100) mod 10 = (y' div 100) mod 10 \<and>
        ((y div 10) mod 10 < (y' div 10) mod 10 \<or>
         ((y div 10) mod 10 = (y' div 10) mod 10 \<and> y mod 10 < y' mod 10)))))"
proof -
  have small: "y div 1000 < 10" "y' div 1000 < 10"
    using assms by simp_all
  have d2: "y div 10 div 10 = y div 100" "y' div 10 div 10 = y' div 100"
    by (simp_all add: div_mult2_eq [symmetric])
  have d3: "y div 100 div 10 = y div 1000" "y' div 100 div 10 = y' div 1000"
    by (simp_all add: div_mult2_eq [symmetric])
  have top: "y div 1000 mod 10 = y div 1000" "y' div 1000 mod 10 = y' div 1000"
    using small by simp_all
  have a: "y < y' \<longleftrightarrow>
      y div 10 < y' div 10 \<or> (y div 10 = y' div 10 \<and> y mod 10 < y' mod 10)"
    by (rule less_by_last_digit)
  have b: "y div 10 < y' div 10 \<longleftrightarrow>
      y div 100 < y' div 100 \<or> (y div 100 = y' div 100 \<and> y div 10 mod 10 < y' div 10 mod 10)"
    using less_by_last_digit [of "y div 10" "y' div 10"] unfolding d2 .
  have b': "y div 10 = y' div 10 \<longleftrightarrow>
      y div 100 = y' div 100 \<and> y div 10 mod 10 = y' div 10 mod 10"
    using eq_by_last_digit [of "y div 10" "y' div 10"] unfolding d2 .
  have c: "y div 100 < y' div 100 \<longleftrightarrow>
      y div 1000 < y' div 1000 \<or>
      (y div 1000 = y' div 1000 \<and> y div 100 mod 10 < y' div 100 mod 10)"
    using less_by_last_digit [of "y div 100" "y' div 100"] unfolding d3 .
  have c': "y div 100 = y' div 100 \<longleftrightarrow>
      y div 1000 = y' div 1000 \<and> y div 100 mod 10 = y' div 100 mod 10"
    using eq_by_last_digit [of "y div 100" "y' div 100"] unfolding d3 .
  show ?thesis
    unfolding top a b b' c c' by blast
qed

lemma eq_by_four_digits:
  fixes y y' :: nat
  assumes "y < 10000" and "y' < 10000"
  shows "y = y' \<longleftrightarrow>
     (y div 1000) mod 10 = (y' div 1000) mod 10 \<and> (y div 100) mod 10 = (y' div 100) mod 10 \<and>
     (y div 10) mod 10 = (y' div 10) mod 10 \<and> y mod 10 = y' mod 10"
proof -
  have small: "y div 1000 < 10" "y' div 1000 < 10"
    using assms by simp_all
  have d2: "y div 10 div 10 = y div 100" "y' div 10 div 10 = y' div 100"
    by (simp_all add: div_mult2_eq [symmetric])
  have d3: "y div 100 div 10 = y div 1000" "y' div 100 div 10 = y' div 1000"
    by (simp_all add: div_mult2_eq [symmetric])
  have top: "y div 1000 mod 10 = y div 1000" "y' div 1000 mod 10 = y' div 1000"
    using small by simp_all
  have a: "y = y' \<longleftrightarrow> y div 10 = y' div 10 \<and> y mod 10 = y' mod 10"
    by (rule eq_by_last_digit)
  have b: "y div 10 = y' div 10 \<longleftrightarrow>
      y div 100 = y' div 100 \<and> y div 10 mod 10 = y' div 10 mod 10"
    using eq_by_last_digit [of "y div 10" "y' div 10"] unfolding d2 .
  have c: "y div 100 = y' div 100 \<longleftrightarrow>
      y div 1000 = y' div 1000 \<and> y div 100 mod 10 = y' div 100 mod 10"
    using eq_by_last_digit [of "y div 100" "y' div 100"] unfolding d3 .
  show ?thesis
    unfolding top a b c by blast
qed

lemma less_by_two_digits:
  fixes m m' :: nat
  assumes "m < 100" and "m' < 100"
  shows "m < m' \<longleftrightarrow>
     (m div 10) mod 10 < (m' div 10) mod 10 \<or>
     ((m div 10) mod 10 = (m' div 10) mod 10 \<and> m mod 10 < m' mod 10)"
proof -
  have "m div 10 < 10" "m' div 10 < 10"
    using assms by simp_all
  then have top: "m div 10 mod 10 = m div 10" "m' div 10 mod 10 = m' div 10"
    by simp_all
  show ?thesis
    unfolding top by (rule less_by_last_digit)
qed

lemma eq_by_two_digits:
  fixes m m' :: nat
  assumes "m < 100" and "m' < 100"
  shows "m = m' \<longleftrightarrow> (m div 10) mod 10 = (m' div 10) mod 10 \<and> m mod 10 = m' mod 10"
proof -
  have "m div 10 < 10" "m' div 10 < 10"
    using assms by simp_all
  then have top: "m div 10 mod 10 = m div 10" "m' div 10 mod 10 = m' div 10"
    by simp_all
  show ?thesis
    unfolding top by (rule eq_by_last_digit)
qed

lemma year_month_key_four:
  "1000 \<le> y \<Longrightarrow>
     year_month_key y m =
       [digit_char (y div 1000), digit_char (y div 100), digit_char (y div 10), digit_char y,
        CHR ''-'', digit_char (m div 10), digit_char m]"
  by (simp add: year_month_key_def year_digits_def)

lemma year_month_key_less:
  assumes "y < 10000" and "y' < 10000" and "m < 100" and "m' < 100"
    and "1000 \<le> y" and "1000 \<le> y'"
  shows "year_month_key y m < year_month_key y' m' \<longleftrightarrow> y < y' \<or> (y = y' \<and> m < m')"
proof -
  have "year_month_key y m < year_month_key y' m' \<longleftrightarrow>
     (y div 1000) mod 10 < (y' div 1000) mod 10 \<or>
     ((y div 1000) mod 10 = (y' div 1000) mod 10 \<and>
      ((y div 100) mod 10 < (y' div 100) mod 10 \<or>
       ((y div 100) mod 10 = (y' div 100) mod 10 \<and>
        ((y div 10) mod 10 < (y' div 10) mod 10 \<or>
         ((y div 10) mod 10 = (y' div 10) mod 10 \<and>
          (y mod 10 < y' mod 10 \<or>
           (y mod 10 = y' mod 10 \<and>
            ((m div 10) mod 10 < (m' div 10) mod 10 \<or>
             ((m div 10) mod 10 = (m' div 10) mod 10 \<and> m mod 10 < m' mod 10)))))))))"
    by (simp add: year_month_key_four [OF assms(5)] year_month_key_four [OF assms(6)]
        digit_char_less digit_char_eq)
  then show ?thesis
    unfolding less_by_four_digits [OF assms(1,2)] eq_by_four_digits [OF assms(1,2)]
      less_by_two_digits [OF assms(3,4)]
    by blast
qed

lemma year_month_key_eq:
  assumes "y < 10000" and "y' < 10000" and "m < 100" and "m' < 100"
    and "1000 \<le> y" and "1000 \<le> y'"
  shows "year_month_key y m = year_month_key y' m' \<longleftrightarrow> y = y' \<and> m = m'"
proof -
  have "year_month_key y m = year_month_key y' m' \<longleftrightarrow>
     (y div 1000) mod 10 = (y' div 1000) mod 10 \<and> (y div 100) mod 10 = (y' div 100) mod 10 \<and>
     (y div 10) mod 10 = (y' div 10) mod 10 \<and> y mod 10 = y' mod 10 \<and>
     (m div 10) mod 10 = (m' div 10) mod 10 \<and> m mod 10 = m' mod 10"
    by (simp add: year_month_key_four [OF assms(5)] year_month_key_four [OF assms(6)]
        digit_char_eq)
  then show ?thesis
    unfolding eq_by_four_digits [OF assms(1,2)] eq_by_two_digits [OF assms(3,4)]
    by blast
qed

lemma list_all2_in_set2:
  assumes "list_all2 P xs ys" and "y \<in> set ys"
  shows "\<exists>x\<in>set xs. P x y"
  using assms by (induction rule: list_all2_induct) auto

lemma list_all2_same_keys:
  assumes "list_all2 (\<lambda>(k, v) (k', w). k' = k \<and> Q v w) xs ys"
  shows "map fst ys = map fst xs"
  using assms by (induction rule: list_all2_induct) auto

lemma ex_map_subset:
  assumes "set ks \<subseteq> f ` A"
  shows "\<exists>xs. ks = map f xs \<and> set xs \<subseteq> A"
  using assms
proof (induction ks)
  case Nil
  show ?case by simp
next
  case (Cons k ks)
  from Cons.prems obtain x where x: "x \<in> A" "k = f x" by auto
  from Cons obtain xs where xs: "ks = map f xs" "set xs \<subseteq> A" by auto
  have "k # ks = map f (x # xs) \<and> set (x # xs) \<subseteq> A"
    using x xs by simp
  then show ?case by (rule exI [of _ "x # xs"])
qed

lemma month_rows_sorted:
  assumes "distinct (map fst tops)"
  shows "sorted_wrt (<) (map fst (sort_key fst tops))"
    and "set (sort_key fst tops) = set tops"
proof -
  have "mset (map fst tops) = mset (map fst (sort_key fst tops))"
    by (simp only: mset_map mset_sort)
  then have "distinct (map fst tops) \<longleftrightarrow> distinct (map fst (sort_key fst tops))"
    by (rule mset_eq_imp_distinct_iff)
  with assms have "distinct (map fst (sort_key fst tops))"
    by (rule rev_iffD1)
  moreover have "sorted (map fst (sort_key fst tops))"
    by (rule sorted_sort_key)
  ultimately show "sorted_wrt (<) (map fst (sort_key fst tops))"
    by (simp only: strict_sorted_iff)
  show "set (sort_key fst tops) = set tops"
    by (rule set_sort)
qed

lemma strftime_Ym_key: "strftime_Ym (timestamp s) =
    (\<lambda>(y, mo). year_month_key y mo) (year (timestamp s), month (timestamp s))"
  by (simp add: strftime_Ym_def)

lemma top_of_month:
  assumes wf: "wf_analyser a"
    and all: "list_all2 (\<lambda>(mon, items) (mon', best). mon' = mon \<and> py_max snd items = Inr best)
               (monthly_staff_sales a) tops"
    and row: "(mon, best) \<in> set tops"
  shows "\<exists>items. map_of (monthly_staff_sales a) mon = Some items \<and>
           map_of items (fst best) = Some (snd best) \<and> (\<forall>(st, v)\<in>set items. v \<le> snd best)"
proof -
  from list_all2_in_set2 [OF all row] obtain x where x: "x \<in> set (monthly_staff_sales a)"
    and P: "(\<lambda>(mon, items) (mon', best). mon' = mon \<and> py_max snd items = Inr best) x (mon, best)"
    by blast
  obtain mon' items where xe: "x = (mon', items)" by (cases x)
  from P have mon: "mon' = mon" and best: "py_max snd items = Inr best"
    by (simp_all add: xe)
  from x have mem: "(mon, items) \<in> set (monthly_staff_sales a)"
    by (simp add: xe mon)
  have "map_of (monthly_staff_sales a) mon = Some items"
    using wf_analyserD(4) [OF wf] mem by (rule map_of_is_SomeI)
  moreover have "distinct (map fst items)"
    using wf_analyserD(6) [OF wf] mem by blast
  then have "map_of items (fst best) = Some (snd best)"
    using py_max_Inr(1) [OF best] by (simp add: map_of_is_SomeI)
  moreover have "\<forall>(st, v)\<in>set items. v \<le> snd best"
    using py_max_Inr(2) [OF best] by auto
  ultimately show ?thesis by blast
qed


section \<open>What an update adds, and what never shrinks\<close>

lemma plain_conversions:
  "py_int plain_lib ''5'' = Some 5" "py_int plain_lib ''3'' = Some 3"
  "py_float plain_lib ''2114.235'' = Some (2114235 / 1000)"
  "py_float plain_lib ''500.00'' = Some 500"
  by code_simp+

lemma nonneg_scenario_sales: "nonneg_sale plain_lib sale1" "nonneg_sale plain_lib sale2"
  by (simp_all add: nonneg_sale_def sale1_def sale2_def plain_conversions)

lemma update_all_scenario: "update_all plain_lib init [sale1, sale2] = Inr analyser2"
  by (simp add: update_sale1 update_sale2)

lemma adds_upward_plain: "adds_upward plain_lib UNIV"
  by (simp add: adds_upward_def plain_lib_def)

text \<open>
  C10, as stated, fails: \<open>int\<close> accepts a negative quantity, and the update then lowers
  the accumulated volumes. After the first sale of the scenario, the line below takes
  the volume of 2025-01-01 from 10 to 5 and that of product 726107 from 5 to 0.
\<close>

lemma parse_refund_line: "parse_line plain_lib refund_line = Inr refund_sale"
  by code_simp

lemma update_refund_sale: "update_metrics plain_lib analyser1 refund_sale = Inr analyser1_refund"
  by code_simp

theorem negative_quantity_lowers_volume:
  "parse_line plain_lib ''4,2025-01-01T16:58:53,[726107:-5],10.00'' = Inr refund_sale \<and>
   update_metrics plain_lib analyser1 refund_sale = Inr analyser1_refund \<and>
   map_of (daily_volume analyser1) (2025, 1, 1) = Some 10 \<and>
   map_of (daily_volume analyser1_refund) (2025, 1, 1) = Some 5 \<and>
   map_of (product_volume analyser1) ''726107'' = Some 5 \<and>
   map_of (product_volume analyser1_refund) ''726107'' = Some 0"
  using parse_refund_line update_refund_sale
  by (simp add: refund_line_def analyser1_def analyser1_refund_def)

text \<open>
  C10, amended. The five dictionaries (and the list of transactions) start empty. An
  update that returns has added the sale to each of them exactly once and changed nothing
  else: with \<open>qs\<close> the integers of the sale's quantities and \<open>amt\<close> the float of its
  amount, \<open>daily_volume\<close> has \<open>sum qs\<close> more at the sale's date, \<open>daily_value\<close> holds at
  that date the float sum of the value it had (0 for a new date) and \<open>amt\<close>,
  \<open>product_volume\<close> has each quantity more at its product id, \<open>monthly_staff_sales\<close> has
  \<open>sum qs\<close> more at the sale's month and staff, \<open>hourly_volumes\<close> has \<open>sum qs\<close> appended
  to the list of the sale's hour, and every other entry is as it was. Over any sequence of
  updates that return, every key stays and every list of \<open>hourly_volumes\<close> is only
  extended; no accumulated number goes down provided that the quantities and amounts of
  the sales are not negative and that adding a float that is not negative never gives
  less (which holds of the float values \<open>F\<close> of the library).
\<close>

theorem analyser_only_grows:
  "transactions init = [] \<and> daily_volume init = [] \<and> daily_value init = [] \<and>
   product_volume init = [] \<and> monthly_staff_sales init = [] \<and> hourly_volumes init = [] \<and>
   (update_metrics L self s = Inr mid \<longrightarrow>
      (\<exists>qs amt.
         map (\<lambda>p. py_int L (quantity p)) (products s) = map Some qs \<and>
         py_float L (amount s) = Some amt \<and>
         map_of (daily_volume mid) =
           map_add_at (map_of (daily_volume self)) (date_of (timestamp s)) (sum_list qs) \<and>
         map_of (daily_value mid) =
           (map_of (daily_value self))(date_of (timestamp s) \<mapsto>
              float_add L (dict_get (daily_value self) (date_of (timestamp s)) 0) amt) \<and>
         map_of (product_volume mid) =
           fold (\<lambda>(k, q) m. map_add_at m k q) (zip (map product_id (products s)) qs)
             (map_of (product_volume self)) \<and>
         inner_maps (monthly_staff_sales mid) =
           inner_add_at (inner_maps (monthly_staff_sales self)) (strftime_Ym (timestamp s))
             (staff s) (sum_list qs) \<and>
         map_of (hourly_volumes mid) =
           (map_of (hourly_volumes self))(hour (timestamp s) \<mapsto>
              dict_get (hourly_volumes self) (hour (timestamp s)) [] @ [sum_list qs]) \<and>
         transactions mid = transactions self)) \<and>
   (update_all L self ss = Inr self' \<longrightarrow>
      entries_kept self self' \<and>
      ((\<forall>s\<in>set ss. nonneg_sale L s) \<and> adds_upward L F \<and> snd ` set (daily_value self) \<subseteq> F \<longrightarrow>
         never_less self self'))"
proof -
  have once: "\<exists>qs amt.
         map (\<lambda>p. py_int L (quantity p)) (products s) = map Some qs \<and>
         py_float L (amount s) = Some amt \<and>
         map_of (daily_volume mid) =
           map_add_at (map_of (daily_volume self)) (date_of (timestamp s)) (sum_list qs) \<and>
         map_of (daily_value mid) =
           (map_of (daily_value self))(date_of (timestamp s) \<mapsto>
              float_add L (dict_get (daily_value self) (date_of (timestamp s)) 0) amt) \<and>
         map_of (product_volume mid) =
           fold (\<lambda>(k, q) m. map_add_at m k q) (zip (map product_id (products s)) qs)
             (map_of (product_volume self)) \<and>
         inner_maps (monthly_staff_sales mid) =
           inner_add_at (inner_maps (monthly_staff_sales self)) (strftime_Ym (timestamp s))
             (staff s) (sum_list qs) \<and>
         map_of (hourly_volumes mid) =
           (map_of (hourly_volumes self))(hour (timestamp s) \<mapsto>
              dict_get (hourly_volumes self) (hour (timestamp s)) [] @ [sum_list qs]) \<and>
         transactions mid = transactions self"
    if "update_metrics L self s = Inr mid"
  proof -
    from that obtain qs amt where qs: "quantities_of L s = Some qs"
      and amt: "py_float L (amount s) = Some amt" and mid: "mid = after_sale L self s qs amt"
      by (rule update_metrics_Inr)
    have conv: "map (\<lambda>p. py_int L (quantity p)) (products s) = map Some qs"
      using qs unfolding quantities_of_def by (rule those_map_Some)
    have "map_of (daily_volume mid) =
        map_add_at (map_of (daily_volume self)) (date_of (timestamp s)) (sum_list qs)"
      by (simp add: mid map_of_dict_add)
    moreover have "map_of (daily_value mid) =
        (map_of (daily_value self))(date_of (timestamp s) \<mapsto>
           float_add L (dict_get (daily_value self) (date_of (timestamp s)) 0) amt)"
      by (simp add: mid)
    moreover have "map_of (product_volume mid) =
        fold (\<lambda>(k, q) m. map_add_at m k q) (zip (map product_id (products s)) qs)
          (map_of (product_volume self))"
      by (simp add: mid map_of_fold_dict_add)
    moreover have "inner_maps (monthly_staff_sales mid) =
        inner_add_at (inner_maps (monthly_staff_sales self)) (strftime_Ym (timestamp s))
          (staff s) (sum_list qs)"
      by (simp add: mid inner_maps_after)
    moreover have "map_of (hourly_volumes mid) =
        (map_of (hourly_volumes self))(hour (timestamp s) \<mapsto>
           dict_get (hourly_volumes self) (hour (timestamp s)) [] @ [sum_list qs])"
      by (simp add: mid)
    moreover have "transactions mid = transactions self"
      by (simp add: mid)
    ultimately show ?thesis
      using conv amt by blast
  qed
  have grows: "entries_kept self self' \<and>
      ((\<forall>s\<in>set ss. nonneg_sale L s) \<and> adds_upward L F \<and> snd ` set (daily_value self) \<subseteq> F \<longrightarrow>
         never_less self self')"
    if "update_all L self ss = Inr self'"
    using update_all_grows(1) [OF that] update_all_grows(2) [OF that] by blast
  show ?thesis
    using once grows by (simp add: init_def)
qed

theorem analyser_only_grows_witness:
  "update_metrics plain_lib init sale1 = Inr analyser1 \<and>
   update_all plain_lib init [sale1, sale2] = Inr analyser2 \<and>
   nonneg_sale plain_lib sale1 \<and> nonneg_sale plain_lib sale2 \<and>
   adds_upward plain_lib UNIV \<and>
   entries_kept init analyser2 \<and> never_less init analyser2 \<and>
   (\<exists>qs amt.
      map (\<lambda>p. py_int plain_lib (quantity p)) (products sale1) = map Some qs \<and>
      py_float plain_lib (amount sale1) = Some amt \<and>
      map_of (daily_volume analyser1) =
        map_add_at (map_of (daily_volume init)) (date_of (timestamp sale1)) (sum_list qs) \<and>
      map_of (hourly_volumes analyser1) =
        (map_of (hourly_volumes init))(hour (timestamp sale1) \<mapsto>
           dict_get (hourly_volumes init) (hour (timestamp sale1)) [] @ [sum_list qs]))"
proof -
  note t = analyser_only_grows [of plain_lib init sale1 analyser1 "[sale1, sale2]" analyser2 UNIV]
  from t update_sale1 have "\<exists>qs amt.
      map (\<lambda>p. py_int plain_lib (quantity p)) (products sale1) = map Some qs \<and>
      py_float plain_lib (amount sale1) = Some amt \<and>
      map_of (daily_volume analyser1) =
        map_add_at (map_of (daily_volume init)) (date_of (timestamp sale1)) (sum_list qs) \<and>
      map_of (hourly_volumes analyser1) =
        (map_of (hourly_volumes init))(hour (timestamp sale1) \<mapsto>
           dict_get (hourly_volumes init) (hour (timestamp sale1)) [] @ [sum_list qs])"
    by blast
  moreover from t update_all_scenario nonneg_scenario_sales adds_upward_plain
  have "entries_kept init analyser2 \<and> never_less init analyser2"
    by simp
  ultimately show ?thesis
    using update_sale1 update_all_scenario nonneg_scenario_sales adds_upward_plain
    by (intro conjI) simp_all
qed

section \<open>The order of the sales: what depends on it and what does not\<close>









lemma update_all_swapped: "update_all plain_lib init [sale2, sale1] = Inr
     \<lparr>transactions = [],
      daily_volume = [((2025, 1, 1), 13)],
      daily_value = [((2025, 1, 1), 2614235 / 1000)],
      product_volume = [(''726107'', 8), (''553776'', 5)],
      monthly_staff_sales = [(''2025-01'', [(''7'', 3), (''4'', 10)])],
      hourly_volumes = [(9, [3]), (16, [10])]\<rparr>"
proof -
  have "update_metrics plain_lib init sale2 = Inr
     \<lparr>transactions = [],
      daily_volume = [((2025, 1, 1), 3)],
      daily_value = [((2025, 1, 1), 500)],
      product_volume = [(''726107'', 3)],
      monthly_staff_sales = [(''2025-01'', [(''7'', 3)])],
      hourly_volumes = [(9, [3])]\<rparr>"
    by code_simp
  moreover have "update_metrics plain_lib
     \<lparr>transactions = [],
      daily_volume = [((2025, 1, 1), 3)],
      daily_value = [((2025, 1, 1), 500)],
      product_volume = [(''726107'', 3)],
      monthly_staff_sales = [(''2025-01'', [(''7'', 3)])],
      hourly_volumes = [(9, [3])]\<rparr> sale1 = Inr
     \<lparr>transactions = [],
      daily_volume = [((2025, 1, 1), 13)],
      daily_value = [((2025, 1, 1), 2614235 / 1000)],
      product_volume = [(''726107'', 8), (''553776'', 5)],
      monthly_staff_sales = [(''2025-01'', [(''7'', 3), (''4'', 10)])],
      hourly_volumes = [(9, [3]), (16, [10])]\<rparr>"
    by code_simp
  ultimately show ?thesis by simp
qed


section \<open>The peak hour\<close>

text \<open>
  C6, as stated, fails: the averages are floats. With \<open>2 ^ 53\<close> units in hour 9 and
  \<open>2 ^ 53 + 1\<close> units in hour 10, both quotients are the float \<open>2 ^ 53\<close>, and the report
  names hour 9, the first of the two, although the average of hour 10 is the greater
  one. And with a quantity of 2 followed by 308 zeros the quotient is beyond the range of
  floats: the division raises \<open>OverflowError\<close> and nothing is reported.
\<close>

lemma two_hours_volumes:
  "on_ok (get_transactions binary64_lib init [hour9_line, hour10_line])
     (\<lambda>a. Inr (hourly_volumes a)) =
   Inr [(9, [9007199254740992]), (10, [9007199254740993])]"
  by code_simp

lemma two_hours_peak:
  "on_ok (get_transactions binary64_lib init [hour9_line, hour10_line])
     (\<lambda>a. on_ok (fst (print_metrics binary64_lib a)) (\<lambda>m. Inr (peak_hour m))) =
   Inr (9, 9007199254740992)"
  by code_simp

lemma huge_overflow:
  "on_ok (get_transactions binary64_lib init [huge_line])
     (\<lambda>a. fst (print_metrics binary64_lib a)) = Inl OverflowError"
  by code_simp

theorem peak_hour_of_rounded_averages:
  "on_ok (get_transactions binary64_lib init
            [''1,2025-01-01T09:00:00,[726107:9007199254740992],1.00'',
             ''1,2025-01-01T10:00:00,[726107:9007199254740993],1.00''])
     (\<lambda>a. Inr (hourly_volumes a)) =
     Inr [(9, [9007199254740992]), (10, [9007199254740993])] \<and>
   on_ok (get_transactions binary64_lib init
            [''1,2025-01-01T09:00:00,[726107:9007199254740992],1.00'',
             ''1,2025-01-01T10:00:00,[726107:9007199254740993],1.00''])
     (\<lambda>a. on_ok (fst (print_metrics binary64_lib a)) (\<lambda>m. Inr (peak_hour m))) =
     Inr (9, 9007199254740992) \<and>
   (of_int (sum_list [9007199254740992]) / of_nat (length [9007199254740992 :: int]) :: rat) <
     of_int (sum_list [9007199254740993]) / of_nat (length [9007199254740993 :: int]) \<and>
   on_ok (get_transactions binary64_lib init [huge_line])
     (\<lambda>a. fst (print_metrics binary64_lib a)) = Inl OverflowError"
  using two_hours_volumes two_hours_peak huge_overflow
  by (simp add: hour9_line_def hour10_line_def)

text \<open>
  C6, amended. After any run of \<open>get_transactions\<close> from the initial analyser, an hour is
  a key of \<open>hourly_volumes\<close> exactly when a sale was recorded in it, every list of volumes
  is non-empty, and \<open>print_metrics\<close> never raises \<open>ZeroDivisionError\<close>. Whenever
  \<open>print_metrics\<close> returns, its peak hour is an hour of \<open>hourly_volumes\<close> paired with the
  float quotient of the sum of its volumes by their number, and it is the first hour, in
  the order in which the hours were first seen, whose float quotient is the greatest:
  the hours before it have a smaller float quotient, the hours after it none that is
  greater. When at least one line was read, the metrics are computed unless some hour's
  quotient is beyond the range of floats, in which case \<open>OverflowError\<close> is raised.
\<close>

theorem peak_hour_first_greatest:
  assumes "get_transactions L init lines = Inr a"
  shows "fst ` set (hourly_volumes a) = (\<lambda>s. hour (timestamp s)) ` set (transactions a) \<and>
     (\<forall>(hr, vs)\<in>set (hourly_volumes a). vs \<noteq> []) \<and>
     fst (print_metrics L a) \<noteq> Inl ZeroDivisionError \<and>
     (\<forall>m. fst (print_metrics L a) = Inr m \<longrightarrow>
        (\<exists>pre hr vs post q.
           hourly_volumes a = pre @ (hr, vs) # post \<and>
           true_div L (sum_list vs) (int (length vs)) = Some q \<and> peak_hour m = (hr, q) \<and>
           (\<forall>(hr', vs')\<in>set pre.
              \<exists>q'. true_div L (sum_list vs') (int (length vs')) = Some q' \<and> q' < q) \<and>
           (\<forall>(hr', vs')\<in>set post.
              \<exists>q'. true_div L (sum_list vs') (int (length vs')) = Some q' \<and> q' \<le> q))) \<and>
     (lines \<noteq> [] \<longrightarrow>
        (\<exists>m. compute_metrics L a = Inr m) \<or>
        (compute_metrics L a = Inl OverflowError \<and>
         (\<exists>(hr, vs)\<in>set (hourly_volumes a).
            true_div L (sum_list vs) (int (length vs)) = None)))"
proof (intro conjI allI impI)
  let ?g = "\<lambda>(hr, vs). (hr, the (true_div L (sum_list vs) (int (length vs))))"
  show "fst ` set (hourly_volumes a) = (\<lambda>s. hour (timestamp s)) ` set (transactions a)"
    using assms by (rule ingested_wf(3))
  have wf: "wf_analyser a"
    using assms by (rule ingested_wf(1))
  then show "\<forall>(hr, vs)\<in>set (hourly_volumes a). vs \<noteq> []"
    by (rule wf_analyserD(7))
  have empty: "compute_metrics L a = Inl ValueError" if "lines = []"
  proof -
    from that assms have "a = init" by (simp add: get_transactions_def init_def)
    then show ?thesis by (simp add: compute_metrics_init)
  qed
  have cases: "(compute_metrics L a = Inl OverflowError \<and>
          (\<exists>(hr, vs)\<in>set (hourly_volumes a). true_div L (sum_list vs) (int (length vs)) = None)) \<or>
         (\<exists>m. compute_metrics L a = Inr m \<and>
           (\<forall>(hr, vs)\<in>set (hourly_volumes a).
              true_div L (sum_list vs) (int (length vs)) \<noteq> None) \<and>
           py_max snd (map ?g (hourly_volumes a)) = Inr (peak_hour m))"
    if "lines \<noteq> []"
    using compute_metrics_cases [OF wf ingested_not_empty(1,2,3,5) [OF assms that], of L]
    by blast
  show "(\<exists>m. compute_metrics L a = Inr m) \<or>
        (compute_metrics L a = Inl OverflowError \<and>
         (\<exists>(hr, vs)\<in>set (hourly_volumes a).
            true_div L (sum_list vs) (int (length vs)) = None))"
    if "lines \<noteq> []"
    using cases [OF that] by blast
  have no_zero: "compute_metrics L a \<noteq> Inl ZeroDivisionError"
  proof (cases "lines = []")
    case True
    then show ?thesis by (simp add: empty)
  next
    case False
    from cases [OF this] show ?thesis by auto
  qed
  show "fst (print_metrics L a) \<noteq> Inl ZeroDivisionError"
  proof
    assume "fst (print_metrics L a) = Inl ZeroDivisionError"
    then have "report_metrics L a = Inl ZeroDivisionError"
      by (simp add: print_metrics_def)
    from report_metrics_error [OF this] no_zero show False by simp
  qed
  fix m assume "fst (print_metrics L a) = Inr m"
  then have "report_metrics L a = Inr m"
    by (simp add: print_metrics_def)
  then obtain m0 ls where m0: "compute_metrics L a = Inr m0" and m: "m = report_of m0 ls"
    by (rule report_metrics_Inr)
  have lines: "lines \<noteq> []"
    using empty m0 by auto
  from cases [OF lines] m0
  have some: "\<forall>(hr, vs)\<in>set (hourly_volumes a).
      true_div L (sum_list vs) (int (length vs)) \<noteq> None"
    and peak: "py_max snd (map ?g (hourly_volumes a)) = Inr (peak_hour m0)"
    by auto
  have some': "true_div L (sum_list vs') (int (length vs')) \<noteq> None"
    if "(hr', vs') \<in> set (hourly_volumes a)" for hr' vs'
    using some that by blast
  from py_max_first [OF peak] obtain pre' post'
    where d': "map ?g (hourly_volumes a) = pre' @ peak_hour m0 # post'"
      and lt: "\<forall>y\<in>set pre'. snd y < snd (peak_hour m0)"
      and le: "\<forall>y\<in>set post'. snd y \<le> snd (peak_hour m0)"
    by blast
  from d' obtain pre x post where d: "hourly_volumes a = pre @ x # post"
    and pre: "map ?g pre = pre'" and x: "?g x = peak_hour m0" and post: "map ?g post = post'"
    by (rule map_eq_middle)
  obtain hr vs where xe: "x = (hr, vs)" by (cases x)
  from d have "(hr, vs) \<in> set (hourly_volumes a)"
    by (simp add: xe)
  then have "true_div L (sum_list vs) (int (length vs)) \<noteq> None"
    by (rule some')
  then obtain q where q: "true_div L (sum_list vs) (int (length vs)) = Some q"
    by blast
  from x have p: "peak_hour m0 = (hr, q)"
    by (simp add: xe q)
  have before: "\<exists>q'. true_div L (sum_list vs') (int (length vs')) = Some q' \<and> q' < q"
    if "(hr', vs') \<in> set pre" for hr' vs'
  proof -
    from that d have "(hr', vs') \<in> set (hourly_volumes a)"
      by simp
    then have "true_div L (sum_list vs') (int (length vs')) \<noteq> None"
      by (rule some')
    then obtain q' where q': "true_div L (sum_list vs') (int (length vs')) = Some q'"
      by blast
    from that have "?g (hr', vs') \<in> set pre'"
      unfolding pre [symmetric] by (simp only: set_map) (rule imageI)
    with lt have "snd (?g (hr', vs')) < snd (peak_hour m0)"
      by blast
    then have "q' < q"
      by (simp add: q' p)
    with q' show ?thesis by blast
  qed
  have after: "\<exists>q'. true_div L (sum_list vs') (int (length vs')) = Some q' \<and> q' \<le> q"
    if "(hr', vs') \<in> set post" for hr' vs'
  proof -
    from that d have "(hr', vs') \<in> set (hourly_volumes a)"
      by simp
    then have "true_div L (sum_list vs') (int (length vs')) \<noteq> None"
      by (rule some')
    then obtain q' where q': "true_div L (sum_list vs') (int (length vs')) = Some q'"
      by blast
    from that have "?g (hr', vs') \<in> set post'"
      unfolding post [symmetric] by (simp only: set_map) (rule imageI)
    with le have "snd (?g (hr', vs')) \<le> snd (peak_hour m0)"
      by blast
    then have "q' \<le> q"
      by (simp add: q' p)
    with q' show ?thesis by blast
  qed
  have "hourly_volumes a = pre @ (hr, vs) # post \<and>
           true_div L (sum_list vs) (int (length vs)) = Some q \<and> peak_hour m = (hr, q) \<and>
           (\<forall>(hr', vs')\<in>set pre.
              \<exists>q'. true_div L (sum_list vs') (int (length vs')) = Some q' \<and> q' < q) \<and>
           (\<forall>(hr', vs')\<in>set post.
              \<exists>q'. true_div L (sum_list vs') (int (length vs')) = Some q' \<and> q' \<le> q)"
    using d q p before after by (simp add: xe m) blast
  then show "\<exists>pre hr vs post q.
           hourly_volumes a = pre @ (hr, vs) # post \<and>
           true_div L (sum_list vs) (int (length vs)) = Some q \<and> peak_hour m = (hr, q) \<and>
           (\<forall>(hr', vs')\<in>set pre.
              \<exists>q'. true_div L (sum_list vs') (int (length vs')) = Some q' \<and> q' < q) \<and>
           (\<forall>(hr', vs')\<in>set post.
              \<exists>q'. true_div L (sum_list vs') (int (length vs')) = Some q' \<and> q' \<le> q)"
    by blast
qed

theorem peak_hour_first_greatest_witness:
  "get_transactions plain_lib init [line1, line2] =
     Inr (analyser2\<lparr>transactions := [sale1, sale2]\<rparr>) \<and>
   fst (print_metrics plain_lib (analyser2\<lparr>transactions := [sale1, sale2]\<rparr>)) \<noteq>
     Inl ZeroDivisionError \<and>
   (\<exists>m pre hr vs post q.
      fst (print_metrics plain_lib (analyser2\<lparr>transactions := [sale1, sale2]\<rparr>)) = Inr m \<and>
      hourly_volumes (analyser2\<lparr>transactions := [sale1, sale2]\<rparr>) = pre @ (hr, vs) # post \<and>
      true_div plain_lib (sum_list vs) (int (length vs)) = Some q \<and> peak_hour m = (hr, q))"
proof -
  let ?a = "analyser2\<lparr>transactions := [sale1, sale2]\<rparr>"
  note t = peak_hour_first_greatest [OF scenario_ingest]
  from t have z: "fst (print_metrics plain_lib ?a) \<noteq> Inl ZeroDivisionError"
    by (elim conjE)
  from t have all: "\<forall>m. fst (print_metrics plain_lib ?a) = Inr m \<longrightarrow>
        (\<exists>pre hr vs post q.
           hourly_volumes ?a = pre @ (hr, vs) # post \<and>
           true_div plain_lib (sum_list vs) (int (length vs)) = Some q \<and> peak_hour m = (hr, q) \<and>
           (\<forall>(hr', vs')\<in>set pre.
              \<exists>q'. true_div plain_lib (sum_list vs') (int (length vs')) = Some q' \<and> q' < q) \<and>
           (\<forall>(hr', vs')\<in>set post.
              \<exists>q'. true_div plain_lib (sum_list vs') (int (length vs')) = Some q' \<and> q' \<le> q))"
    by (elim conjE)
  obtain m where m: "fst (print_metrics plain_lib ?a) = Inr m"
    using scenario_metrics by (simp add: print_metrics_def)
  from all m have "\<exists>pre hr vs post q.
      hourly_volumes ?a = pre @ (hr, vs) # post \<and>
      true_div plain_lib (sum_list vs) (int (length vs)) = Some q \<and> peak_hour m = (hr, q)"
    by blast
  with m have "\<exists>m pre hr vs post q.
      fst (print_metrics plain_lib ?a) = Inr m \<and>
      hourly_volumes ?a = pre @ (hr, vs) # post \<and>
      true_div plain_lib (sum_list vs) (int (length vs)) = Some q \<and> peak_hour m = (hr, q)"
    by blast
  with z scenario_ingest show ?thesis
    by (intro conjI)
qed

end
